theory Spec2Isabelle
  imports Complex_Main "HOL-Library.Sublist"
begin

section \<open>Cost tracking (base-agent: class CostTracker)\<close>













subsection \<open>Properties of the cost tracker\<close>





















section \<open>Retry with backoff (base-agent: withRetry, isRetryable)\<close>

subsection \<open>Strings\<close>

text \<open>
  Strings are lists of 8-bit characters (code units below 256). \<open>toLowerCase\<close> maps
  the capital letters of that range (A to Z, and the accented capitals from 192 to 222 but
  215) to the letter 32 places up, which is the same code with bit 5 set.
  \<open>str_includes s pat\<close> is \<open>s.includes(pat)\<close>, substring search.
\<close>

definition lower_char :: "char \<Rightarrow> char" where
  "lower_char c =
     (let n = (of_char c :: nat)
      in if (65 \<le> n \<and> n \<le> 90) \<or> (192 \<le> n \<and> n \<le> 222 \<and> n \<noteq> 215)
         then (case c of Char b0 b1 b2 b3 b4 b5 b6 b7 \<Rightarrow> Char b0 b1 b2 b3 b4 True b6 b7)
         else c)"

definition toLowerCase :: "string \<Rightarrow> string" where
  "toLowerCase s = map lower_char s"

fun str_includes :: "string \<Rightarrow> string \<Rightarrow> bool" where
  "str_includes [] pat = (pat = [])"
| "str_includes (c # cs) pat = (prefix pat (c # cs) \<or> str_includes cs pat)"

subsection \<open>Errors and the agent\<close>

text \<open>
  A value thrown by the retried operation, as far as \<open>withRetry\<close> and \<open>isRetryable\<close>
  read it: the properties \<open>code\<close> and \<open>message\<close>, either of which may be absent. A code
  that is not a string never equals an entry of the allow-list, like an absent code.
\<close>

record thrown =
  err_code :: "string option"
  err_message :: "string option"

text \<open>
  \<open>AgentError message originalError context\<close> and
  \<open>RetryExhaustedError attempts lastError\<close>; the message of the latter is determined by
  the attempt count.
\<close>

datatype 'c agent_error =
    AgentError string "thrown option" 'c
  | RetryExhaustedError nat "thrown option"

record agent =
  retryAttempts :: nat
  retryDelay :: real

record agent_config =
  cfg_retryAttempts :: "nat option"
  cfg_retryDelay :: "real option"

text \<open>The constructor: \<open>config.retryAttempts || 3\<close> and \<open>config.retryDelay || 1000\<close>.\<close>

definition BaseAgent :: "agent_config \<Rightarrow> agent" where
  "BaseAgent cfg =
     \<lparr>retryAttempts = (case cfg_retryAttempts cfg of None \<Rightarrow> 3 | Some n \<Rightarrow> if n = 0 then 3 else n),
      retryDelay = (case cfg_retryDelay cfg of None \<Rightarrow> 1000 | Some d \<Rightarrow> if d = 0 then 1000 else d)\<rparr>"

definition retryableCodes :: "string list" where
  "retryableCodes =
     [''rate_limit_exceeded'', ''server_error'', ''timeout'', ''ECONNRESET'', ''ETIMEDOUT'',
      ''ENOTFOUND'', ''overloaded_error'', ''service_unavailable'']"

definition retryableMessages :: "string list" where
  "retryableMessages =
     [''timeout'', ''rate limit'', ''overloaded'', ''503'', ''502'', ''500'',
      ''temporarily unavailable'']"

definition isRetryable :: "thrown \<Rightarrow> bool" where
  "isRetryable e =
     (if (case err_code e of None \<Rightarrow> False | Some c \<Rightarrow> c \<noteq> [] \<and> c \<in> set retryableCodes)
      then True
      else (let messageLower = toLowerCase (case err_message e of None \<Rightarrow> [] | Some m \<Rightarrow> m)
            in list_ex (\<lambda>msg. str_includes messageLower msg) retryableMessages))"

text \<open>A template literal prints an absent value as \<open>undefined\<close>.\<close>

definition template :: "string option \<Rightarrow> string" where
  "template v = (case v of None \<Rightarrow> ''undefined'' | Some m \<Rightarrow> m)"

subsection \<open>The retry loop\<close>

text \<open>
  The retried operation is a step on a state of its own: each invocation returns a value or
  a thrown error, and the next state. What \<open>withRetry\<close> does besides calling it is kept in
  a trace: the number of invocations and the durations passed to \<open>delay\<close>, in order. Log
  lines are not modelled.
\<close>

record retry_trace =
  delays :: "real list"
  invocations :: nat

function retry_from ::
  "'z agent_scheme \<Rightarrow> ('s \<Rightarrow> (thrown + 'a) \<times> 's) \<Rightarrow> 'c \<Rightarrow> nat \<Rightarrow> thrown option \<Rightarrow> 's \<Rightarrow>
     retry_trace \<Rightarrow> ('c agent_error + 'a) \<times> 's \<times> retry_trace" where
  "retry_from a fn ctx attempt lastError s tr =
     (if attempt \<le> retryAttempts a then
        (case fn s of
           (Inr v, s') \<Rightarrow> (Inr v, s', tr\<lparr>invocations := invocations tr + 1\<rparr>)
         | (Inl e, s') \<Rightarrow>
             if isRetryable e then
               retry_from a fn ctx (attempt + 1) (Some e) s'
                 (tr\<lparr>invocations := invocations tr + 1,
                     delays := (if attempt < retryAttempts a
                                then delays tr @ [retryDelay a * 2 ^ (attempt - 1)]
                                else delays tr)\<rparr>)
             else
               (Inl (AgentError (''Non-retryable error: '' @ template (err_message e)) (Some e) ctx),
                s', tr\<lparr>invocations := invocations tr + 1\<rparr>))
      else (Inl (RetryExhaustedError (retryAttempts a) lastError), s, tr))"
  by pat_completeness auto
termination
  by (relation "measure (\<lambda>(a, fn, ctx, attempt, lastError, s, tr). Suc (retryAttempts a) - attempt)")
    auto

declare retry_from.simps [simp del]

definition withRetry ::
  "'z agent_scheme \<Rightarrow> ('s \<Rightarrow> (thrown + 'a) \<times> 's) \<Rightarrow> 'c \<Rightarrow> 's \<Rightarrow>
     ('c agent_error + 'a) \<times> 's \<times> retry_trace" where
  "withRetry a fn ctx s = retry_from a fn ctx 1 None s \<lparr>delays = [], invocations = 0\<rparr>"

subsection \<open>The image generator's rate limiting (nano-banana-generator)\<close>

record image_config =
  minDelayBetweenCalls :: real
  maxRetries :: nat
  baseBackoffMs :: real
  maxBackoffMs :: real
  jitterFactor :: real

definition IMAGE_GENERATION_CONFIG :: image_config where
  "IMAGE_GENERATION_CONFIG =
     \<lparr>minDelayBetweenCalls = 3000, maxRetries = 5, baseBackoffMs = 3000,
      maxBackoffMs = 60000, jitterFactor = 0.2\<rparr>"

text \<open>\<open>config.imageConfig\<close>: every key is optional and overrides the default.\<close>

record image_overrides =
  ov_minDelayBetweenCalls :: "real option"
  ov_maxRetries :: "nat option"
  ov_baseBackoffMs :: "real option"
  ov_maxBackoffMs :: "real option"
  ov_jitterFactor :: "real option"

definition merge_image_config :: "image_config \<Rightarrow> image_overrides \<Rightarrow> image_config" where
  "merge_image_config d ov =
     \<lparr>minDelayBetweenCalls = (case ov_minDelayBetweenCalls ov of None \<Rightarrow> minDelayBetweenCalls d | Some v \<Rightarrow> v),
      maxRetries = (case ov_maxRetries ov of None \<Rightarrow> maxRetries d | Some v \<Rightarrow> v),
      baseBackoffMs = (case ov_baseBackoffMs ov of None \<Rightarrow> baseBackoffMs d | Some v \<Rightarrow> v),
      maxBackoffMs = (case ov_maxBackoffMs ov of None \<Rightarrow> maxBackoffMs d | Some v \<Rightarrow> v),
      jitterFactor = (case ov_jitterFactor ov of None \<Rightarrow> jitterFactor d | Some v \<Rightarrow> v)\<rparr>"

record nano_agent = agent +
  lastCallTime :: real
  imageConfig :: image_config

text \<open>
  The constructor sets the rate-limiting state and overrides the retry settings of the
  base class with \<open>maxRetries\<close> and \<open>baseBackoffMs\<close>.
\<close>

definition NanoBananaGenerator :: "image_overrides \<Rightarrow> nano_agent" where
  "NanoBananaGenerator ov =
     (let ic = merge_image_config IMAGE_GENERATION_CONFIG ov
      in \<lparr>retryAttempts = maxRetries ic, retryDelay = baseBackoffMs ic,
          lastCallTime = 0, imageConfig = ic\<rparr>)"

text \<open>
  \<open>enforceRateLimit\<close> reads the clock on entry (\<open>now\<close>) and once more after the wait
  (\<open>now'\<close>); it returns the duration it waited, if any, and the agent with the new
  \<open>lastCallTime\<close>.
\<close>

definition enforceRateLimit :: "nano_agent \<Rightarrow> real \<Rightarrow> real \<Rightarrow> real option \<times> nano_agent" where
  "enforceRateLimit g now now' =
     (let timeSinceLastCall = now - lastCallTime g
      in (if timeSinceLastCall < minDelayBetweenCalls (imageConfig g)
          then Some (minDelayBetweenCalls (imageConfig g) - timeSinceLastCall) else None,
          g\<lparr>lastCallTime := now'\<rparr>))"

text \<open>
  \<open>calculateBackoffWithJitter\<close>, with the value of \<open>Math.random()\<close> as the argument
  \<open>rnd\<close>. No function of the repository calls it.
\<close>

definition calculateBackoffWithJitter :: "nano_agent \<Rightarrow> nat \<Rightarrow> real \<Rightarrow> int" where
  "calculateBackoffWithJitter g attempt rnd =
     (let baseDelay = baseBackoffMs (imageConfig g) *
                        (if attempt = 0 then 1 / 2 else 2 ^ (attempt - 1));
          cappedDelay = min baseDelay (maxBackoffMs (imageConfig g));
          jitter = cappedDelay * jitterFactor (imageConfig g) * rnd
      in \<lfloor>cappedDelay + jitter\<rfloor>)"

text \<open>
  \<open>callNanoBanana\<close> hands its provider call (the whole function literal, here \<open>call\<close>)
  to \<open>withRetry\<close> of the base class, with the default context.
\<close>

definition callNanoBanana ::
  "nano_agent \<Rightarrow> ('s \<Rightarrow> (thrown + 'a) \<times> 's) \<Rightarrow> 's \<Rightarrow> (unit agent_error + 'a) \<times> 's \<times> retry_trace" where
  "callNanoBanana g call s = withRetry g call () s"


subsection \<open>Properties of the retry loop\<close>

lemma retryable_code:
  assumes "err_code e = Some c" "c \<in> set retryableCodes"
  shows "isRetryable e"
  using assms by (auto simp: isRetryable_def retryableCodes_def)

lemma not_retryable:
  assumes "\<forall>c. err_code e = Some c \<longrightarrow> c \<notin> set retryableCodes"
    and "\<forall>msg\<in>set retryableMessages.
           \<not> str_includes (toLowerCase (case err_message e of None \<Rightarrow> [] | Some m \<Rightarrow> m)) msg"
  shows "\<not> isRetryable e"
  using assms by (auto simp: isRetryable_def list_ex_iff split: option.splits)

lemma BaseAgent_attempts: "1 \<le> retryAttempts (BaseAgent cfg)"
  by (simp add: BaseAgent_def split: option.splits)

text \<open>
  C4. With \<open>retryAttempts = 3\<close>, an operation whose first two invocations throw errors
  with a code of the allow-list and whose third invocation returns \<open>v\<close>: \<open>withRetry\<close>
  returns \<open>v\<close> after three invocations and exactly two delays, the delay after attempt
  \<open>n\<close> being \<open>retryDelay * 2 ^ (n - 1)\<close>, with no random part.
\<close>

theorem withRetry_third_attempt_succeeds:
  assumes three: "retryAttempts a = 3"
    and first: "fn s0 = (Inl e1, s1)" "err_code e1 = Some c1" "c1 \<in> set retryableCodes"
    and second: "fn s1 = (Inl e2, s2)" "err_code e2 = Some c2" "c2 \<in> set retryableCodes"
    and third: "fn s2 = (Inr v, s3)"
  shows "withRetry a fn ctx s0 =
           (Inr v, s3,
            \<lparr>delays = [retryDelay a * 2 ^ (1 - 1), retryDelay a * 2 ^ (2 - 1)], invocations = 3\<rparr>)"
proof -
  have r1: "isRetryable e1" using first(2,3) by (rule retryable_code)
  have r2: "isRetryable e2" using second(2,3) by (rule retryable_code)
  show ?thesis
    unfolding withRetry_def
    by (simp add: retry_from.simps three first(1) second(1) third r1 r2)
qed

text \<open>An operation that counts its invocations and succeeds from the third on.\<close>

definition rate_limited :: thrown where
  "rate_limited = \<lparr>err_code = Some ''rate_limit_exceeded'', err_message = Some ''Rate limit exceeded''\<rparr>"

definition succeeds_third :: "nat \<Rightarrow> (thrown + string) \<times> nat" where
  "succeeds_third n = (if n < 2 then (Inl rate_limited, Suc n) else (Inr ''done'', Suc n))"

definition three_attempts :: agent where
  "three_attempts = BaseAgent \<lparr>cfg_retryAttempts = Some 3, cfg_retryDelay = Some 1000\<rparr>"

theorem withRetry_third_attempt_succeeds_witness:
  "retryAttempts three_attempts = 3 \<and>
   succeeds_third 0 = (Inl rate_limited, 1) \<and>
   succeeds_third 1 = (Inl rate_limited, 2) \<and>
   succeeds_third 2 = (Inr ''done'', 3) \<and>
   err_code rate_limited = Some ''rate_limit_exceeded'' \<and>
   ''rate_limit_exceeded'' \<in> set retryableCodes \<and>
   withRetry three_attempts succeeds_third () 0 =
     (Inr ''done'', 3, \<lparr>delays = [1000, 2000], invocations = 3\<rparr>)"
proof -
  have a: "retryAttempts three_attempts = 3" "retryDelay three_attempts = 1000"
    by (simp_all add: three_attempts_def BaseAgent_def)
  have f: "succeeds_third 0 = (Inl rate_limited, 1)" "succeeds_third 1 = (Inl rate_limited, 2)"
    "succeeds_third 2 = (Inr ''done'', 3)"
    by (simp_all add: succeeds_third_def)
  have c: "err_code rate_limited = Some ''rate_limit_exceeded''"
    "''rate_limit_exceeded'' \<in> set retryableCodes"
    by (simp_all add: rate_limited_def retryableCodes_def)
  show ?thesis
    using withRetry_third_attempt_succeeds [OF a(1) f(1) c f(2) c f(3), of "()"] a f c
    by simp
qed

lemma withRetry_not_retryable:
  assumes "fn s = (Inl e, s')" and "\<not> isRetryable e" and "1 \<le> retryAttempts a"
  shows "withRetry a fn ctx s =
           (Inl (AgentError (''Non-retryable error: '' @ template (err_message e)) (Some e) ctx),
            s', \<lparr>delays = [], invocations = 1\<rparr>)"
  unfolding withRetry_def
  using assms by (subst retry_from.simps) simp

text \<open>
  C5. An operation whose invocation throws an error that is not retryable (its code is not
  in the allow-list and its lower-cased message contains none of the retryable substrings):
  \<open>withRetry\<close> of an agent built by the base constructor, which sets at least one
  attempt, invokes it once, awaits no delay and raises an \<open>AgentError\<close> that carries the
  thrown error and the context.
\<close>

theorem withRetry_non_retryable_raises_at_once:
  assumes fails: "fn s = (Inl e, s')"
    and code: "\<forall>c. err_code e = Some c \<longrightarrow> c \<notin> set retryableCodes"
    and msg: "\<forall>msg\<in>set retryableMessages.
           \<not> str_includes (toLowerCase (case err_message e of None \<Rightarrow> [] | Some m \<Rightarrow> m)) msg"
  shows "withRetry (BaseAgent cfg) fn ctx s =
           (Inl (AgentError (''Non-retryable error: '' @ template (err_message e)) (Some e) ctx),
            s', \<lparr>delays = [], invocations = 1\<rparr>)"
proof -
  have "\<not> isRetryable e" using code msg by (rule not_retryable)
  with fails show ?thesis
    using BaseAgent_attempts [of cfg] by (rule withRetry_not_retryable)
qed

definition bad_key :: thrown where
  "bad_key = \<lparr>err_code = Some ''invalid_api_key'', err_message = Some ''Invalid API key''\<rparr>"

definition always_bad_key :: "nat \<Rightarrow> (thrown + string) \<times> nat" where
  "always_bad_key n = (Inl bad_key, Suc n)"

definition default_config :: agent_config where
  "default_config = \<lparr>cfg_retryAttempts = None, cfg_retryDelay = None\<rparr>"

theorem withRetry_non_retryable_raises_at_once_witness:
  "always_bad_key 0 = (Inl bad_key, 1) \<and>
   ''invalid_api_key'' \<notin> set retryableCodes \<and>
   \<not> list_ex (str_includes (toLowerCase ''Invalid API key'')) retryableMessages \<and>
   withRetry (BaseAgent default_config) always_bad_key ''synthesis'' 0 =
     (Inl (AgentError ''Non-retryable error: Invalid API key'' (Some bad_key) ''synthesis''),
      1, \<lparr>delays = [], invocations = 1\<rparr>)"
proof -
  have f: "always_bad_key 0 = (Inl bad_key, 1)"
    by (simp add: always_bad_key_def)
  have c: "\<forall>c. err_code bad_key = Some c \<longrightarrow> c \<notin> set retryableCodes"
    by (simp add: bad_key_def retryableCodes_def)
  have m: "\<forall>msg\<in>set retryableMessages.
      \<not> str_includes (toLowerCase (case err_message bad_key of None \<Rightarrow> [] | Some m \<Rightarrow> m)) msg"
    by (simp add: bad_key_def retryableMessages_def toLowerCase_def lower_char_def)
  have c': "''invalid_api_key'' \<notin> set retryableCodes"
    by (simp add: retryableCodes_def)
  have m': "\<not> list_ex (str_includes (toLowerCase ''Invalid API key'')) retryableMessages"
    by (simp add: retryableMessages_def toLowerCase_def lower_char_def)
  show ?thesis
    using withRetry_non_retryable_raises_at_once
        [of always_bad_key 0 bad_key 1 default_config "''synthesis''", OF f c m] f c' m'
    by (simp add: template_def bad_key_def)
qed

text \<open>A provider call that keeps failing on a rate limit, and two configurations.\<close>

definition always_rate_limited :: "nat \<Rightarrow> (thrown + string) \<times> nat" where
  "always_rate_limited n = (Inl rate_limited, Suc n)"

definition no_overrides :: image_overrides where
  "no_overrides = \<lparr>ov_minDelayBetweenCalls = None, ov_maxRetries = None,
     ov_baseBackoffMs = None, ov_maxBackoffMs = None, ov_jitterFactor = None\<rparr>"

definition seven_retries :: image_overrides where
  "seven_retries = no_overrides\<lparr>ov_maxRetries := Some 7\<rparr>"

text \<open>
  C6. The image generator retries through \<open>withRetry\<close> of the base class: the delays are
  \<open>baseBackoffMs * 2 ^ (n - 1)\<close> with no random part and no ceiling, and
  \<open>calculateBackoffWithJitter\<close> takes no part. With the default configuration a call that
  keeps failing on a rate limit waits 3000, 6000, 12000 and 24000 ms; with \<open>maxRetries\<close>
  set to 7 the sixth delay is 96000 ms, above \<open>maxBackoffMs = 60000\<close>.
\<close>

theorem callNanoBanana_delays_without_cap_or_jitter:
  "snd (snd (callNanoBanana (NanoBananaGenerator no_overrides) always_rate_limited 0))
     = \<lparr>delays = [3000, 6000, 12000, 24000], invocations = 5\<rparr> \<and>
   snd (snd (callNanoBanana (NanoBananaGenerator seven_retries) always_rate_limited 0))
     = \<lparr>delays = [3000, 6000, 12000, 24000, 48000, 96000], invocations = 7\<rparr> \<and>
   maxBackoffMs (imageConfig (NanoBananaGenerator seven_retries)) = 60000"
  by (simp add: callNanoBanana_def withRetry_def NanoBananaGenerator_def seven_retries_def
      no_overrides_def merge_image_config_def IMAGE_GENERATION_CONFIG_def
      always_rate_limited_def rate_limited_def retry_from.simps isRetryable_def
      retryableCodes_def)


text \<open>
  What the unused functions compute: \<open>calculateBackoffWithJitter\<close> stays below the ceiling
  plus a fifth for every attempt, and \<open>enforceRateLimit\<close> waits for what is missing of
  the minimum spacing since the last call.
\<close>

lemma calculateBackoffWithJitter_capped:
  assumes "0 \<le> rnd" "rnd < 1"
  shows "calculateBackoffWithJitter (NanoBananaGenerator no_overrides) attempt rnd \<le> 72000"
proof -
  define base :: real where "base = 3000 * (if attempt = 0 then 1 / 2 else 2 ^ (attempt - 1))"
  define capped :: real where "capped = min base 60000"
  have eq: "calculateBackoffWithJitter (NanoBananaGenerator no_overrides) attempt rnd =
      \<lfloor>capped + capped * 0.2 * rnd\<rfloor>"
    unfolding capped_def base_def
    by (simp only: calculateBackoffWithJitter_def Let_def NanoBananaGenerator_def
        no_overrides_def merge_image_config_def IMAGE_GENERATION_CONFIG_def
        image_overrides.simps image_config.simps nano_agent.simps option.case)
  have "0 \<le> base" by (simp add: base_def)
  then have lo: "0 \<le> capped" by (simp add: capped_def)
  have hi: "capped \<le> 60000" by (simp add: capped_def)
  from lo have "0 \<le> capped * 0.2" by simp
  with assms have "capped * 0.2 * rnd \<le> capped * 0.2"
    by (intro mult_left_le) simp_all
  with hi have "capped + capped * 0.2 * rnd \<le> 72000" by simp
  then have "\<lfloor>capped + capped * 0.2 * rnd\<rfloor> \<le> 72000"
    by (simp add: floor_le_iff)
  with eq show ?thesis by simp
qed

lemma enforceRateLimit_wait:
  "fst (enforceRateLimit g now now') =
     (if now - lastCallTime g < minDelayBetweenCalls (imageConfig g)
      then Some (minDelayBetweenCalls (imageConfig g) - (now - lastCallTime g)) else None) \<and>
   lastCallTime (snd (enforceRateLimit g now now')) = now'"
  by (simp add: enforceRateLimit_def Let_def)

section \<open>Response repair (base-agent: extractJSON, repairJSON)\<close>

subsection \<open>The two character scans\<close>

abbreviation (input) dquote :: char where "dquote \<equiv> CHR 0x22"
abbreviation (input) bslash :: char where "bslash \<equiv> CHR 0x5C"

text \<open>
  \<open>fixStringEscaping\<close> and \<open>closeOpenBrackets\<close> walk over the text with the same two
  flags; the first builds \<open>result\<close>, the second keeps a \<open>stack\<close> of pending closers.
  \<open>stack.push(x)\<close> appends at the end of the list, \<open>stack.pop()\<close> removes the last
  element.
\<close>

record string_scan =
  inString :: bool
  escapeNext :: bool

record bracket_scan = string_scan +
  stack :: string

record escape_scan = string_scan +
  result :: string

definition bracket_step :: "bracket_scan \<Rightarrow> char \<Rightarrow> bracket_scan" where
  "bracket_step st c =
     (if escapeNext st then st\<lparr>escapeNext := False\<rparr>
      else if c = bslash then st\<lparr>escapeNext := True\<rparr>
      else if c = dquote then st\<lparr>inString := \<not> inString st\<rparr>
      else if \<not> inString st then
        (if c = CHR ''{'' then st\<lparr>stack := stack st @ [CHR ''}'']\<rparr>
         else if c = CHR ''['' then st\<lparr>stack := stack st @ [CHR '']'']\<rparr>
         else if c = CHR ''}'' \<or> c = CHR '']'' then
           (if stack st \<noteq> [] \<and> last (stack st) = c then st\<lparr>stack := butlast (stack st)\<rparr>
            else st)
         else st)
      else st)"

definition bracket_init :: bracket_scan where
  "bracket_init = \<lparr>inString = False, escapeNext = False, stack = []\<rparr>"

definition bracket_scan_of :: "string \<Rightarrow> bracket_scan" where
  "bracket_scan_of jsonStr = foldl bracket_step bracket_init jsonStr"

text \<open>The final loop: \<open>while (stack.length > 0) jsonStr += stack.pop()\<close>.\<close>

function pop_all :: "string \<Rightarrow> string \<Rightarrow> string" where
  "pop_all stk jsonStr = (if stk \<noteq> [] then pop_all (butlast stk) (jsonStr @ [last stk]) else jsonStr)"
  by pat_completeness auto
termination
  by (relation "measure (\<lambda>(stk, jsonStr). length stk)") auto

declare pop_all.simps [simp del]

definition closeOpenBrackets :: "string \<Rightarrow> string" where
  "closeOpenBrackets jsonStr =
     (let st = bracket_scan_of jsonStr;
          closed = (if inString st then jsonStr @ [dquote] else jsonStr)
      in pop_all (stack st) closed)"

text \<open>
  \<open>toString(16).padStart(4, "0")\<close> of a character code below 256: one or two lower-case
  hexadecimal digits, filled up with zeros to four places.
\<close>

definition hex_digit :: "nat \<Rightarrow> char" where
  "hex_digit n = ''0123456789abcdef'' ! n"

definition hex4 :: "nat \<Rightarrow> string" where
  "hex4 n =
     (let h = (if n < 16 then [hex_digit n] else [hex_digit (n div 16), hex_digit (n mod 16)])
      in replicate (4 - length h) (CHR ''0'') @ h)"

definition escape_step :: "escape_scan \<Rightarrow> char \<Rightarrow> escape_scan" where
  "escape_step st c =
     (if escapeNext st then st\<lparr>result := result st @ [c], escapeNext := False\<rparr>
      else if c = bslash then st\<lparr>escapeNext := True, result := result st @ [c]\<rparr>
      else if c = dquote then st\<lparr>inString := \<not> inString st, result := result st @ [c]\<rparr>
      else if inString st then
        (if c = CHR 0x0A then st\<lparr>result := result st @ [bslash, CHR ''n'']\<rparr>
         else if c = CHR 0x0D then st\<lparr>result := result st @ [bslash, CHR ''r'']\<rparr>
         else if c = CHR 0x09 then st\<lparr>result := result st @ [bslash, CHR ''t'']\<rparr>
         else if (of_char c :: nat) < 32
           then st\<lparr>result := result st @ [bslash, CHR ''u''] @ hex4 (of_char c)\<rparr>
         else st\<lparr>result := result st @ [c]\<rparr>)
      else st\<lparr>result := result st @ [c]\<rparr>)"

definition escape_init :: escape_scan where
  "escape_init = \<lparr>inString = False, escapeNext = False, result = []\<rparr>"

definition fixStringEscaping :: "string \<Rightarrow> string" where
  "fixStringEscaping jsonStr = result (foldl escape_step escape_init jsonStr)"

text \<open>
  The closer that \<open>closeOpenBrackets\<close> pushes for an opener, and the openers that are
  still unmatched after a text: those met outside string regions and not yet removed by
  their own closer (a closer that does not match the innermost pending opener is skipped).
\<close>

definition closer_of :: "char \<Rightarrow> char" where
  "closer_of c = (if c = CHR ''{'' then CHR ''}'' else CHR '']'')"

record opener_scan = string_scan +
  openers :: string

definition opener_step :: "opener_scan \<Rightarrow> char \<Rightarrow> opener_scan" where
  "opener_step st c =
     (if escapeNext st then st\<lparr>escapeNext := False\<rparr>
      else if c = bslash then st\<lparr>escapeNext := True\<rparr>
      else if c = dquote then st\<lparr>inString := \<not> inString st\<rparr>
      else if inString st then st
      else if c = CHR ''{'' \<or> c = CHR ''['' then st\<lparr>openers := openers st @ [c]\<rparr>
      else if openers st \<noteq> [] \<and> c = closer_of (last (openers st))
        then st\<lparr>openers := butlast (openers st)\<rparr>
      else st)"

definition opener_init :: opener_scan where
  "opener_init = \<lparr>inString = False, escapeNext = False, openers = []\<rparr>"

definition unmatched_openers :: "string \<Rightarrow> string" where
  "unmatched_openers s = openers (foldl opener_step opener_init s)"

definition scans_agree :: "bracket_scan \<Rightarrow> opener_scan \<Rightarrow> bool" where
  "scans_agree st st' \<longleftrightarrow>
     inString st = inString st' \<and> escapeNext st = escapeNext st' \<and>
     stack st = map closer_of (openers st') \<and>
     set (openers st') \<subseteq> {CHR ''{'', CHR ''[''}"


subsection \<open>Properties of closeOpenBrackets\<close>

lemma pop_all_rev: "pop_all stk s = s @ rev stk"
proof (induction stk arbitrary: s rule: rev_induct)
  case Nil
  then show ?case by (subst pop_all.simps) simp
next
  case (snoc x xs)
  then show ?case by (subst pop_all.simps) simp
qed

lemma scans_agree_step:
  assumes "scans_agree st st'"
  shows "scans_agree (bracket_step st c) (opener_step st' c)"
proof -
  have l: "openers st' \<noteq> [] \<Longrightarrow> last (map closer_of (openers st')) = closer_of (last (openers st'))"
    by (simp add: last_map)
  have b: "set (butlast (openers st')) \<subseteq> set (openers st')"
    by (auto dest: in_set_butlastD)
  have cl: "\<And>x. closer_of x = CHR ''}'' \<or> closer_of x = CHR '']''"
    by (simp add: closer_of_def)
  show ?thesis
    using assms l b cl [of "last (openers st')"]
    by (auto simp: scans_agree_def bracket_step_def opener_step_def map_butlast closer_of_def)
qed

lemma scans_agree_foldl:
  "scans_agree st st' \<Longrightarrow> scans_agree (foldl bracket_step st s) (foldl opener_step st' s)"
  by (induction s arbitrary: st st') (simp_all add: scans_agree_step)

lemma scans_agree_of:
  "scans_agree (bracket_scan_of s) (foldl opener_step opener_init s)"
  unfolding bracket_scan_of_def
  by (rule scans_agree_foldl) (simp add: scans_agree_def bracket_init_def opener_init_def)

lemma stack_unmatched: "stack (bracket_scan_of s) = map closer_of (unmatched_openers s)"
  using scans_agree_of [of s] by (simp add: scans_agree_def unmatched_openers_def opener_init_def)

lemma unmatched_openers_chars: "set (unmatched_openers s) \<subseteq> {CHR ''{'', CHR ''[''}"
  using scans_agree_of [of s] by (simp add: scans_agree_def unmatched_openers_def opener_init_def)

lemma closeOpenBrackets_eq:
  "closeOpenBrackets s =
     s @ (if inString (bracket_scan_of s) then [dquote] else []) @ rev (stack (bracket_scan_of s))"
  by (simp add: closeOpenBrackets_def Let_def pop_all_rev)

lemma pop_closers:
  assumes "\<not> inString st" "\<not> escapeNext st" "set (stack st) \<subseteq> {CHR ''}'', CHR '']''}"
  shows "foldl bracket_step st (rev (stack st)) = st\<lparr>stack := []\<rparr>"
  using assms
proof (induction "stack st" arbitrary: st rule: rev_induct)
  case Nil
  then show ?case by simp
next
  case (snoc x xs)
  let ?st = "st\<lparr>stack := xs\<rparr>"
  from snoc.hyps(2) [symmetric] snoc.prems
  have step: "bracket_step st x = ?st"
    by (auto simp: bracket_step_def)
  have "foldl bracket_step ?st (rev (stack ?st)) = ?st\<lparr>stack := []\<rparr>"
    using snoc.prems snoc.hyps(2) [symmetric] by (intro snoc.hyps(1)) auto
  with step snoc.hyps(2) [symmetric] show ?case by simp
qed

lemma stack_chars: "set (stack (bracket_scan_of s)) \<subseteq> {CHR ''}'', CHR '']''}"
  unfolding stack_unmatched by (auto simp: closer_of_def)

lemma rescan_closed:
  assumes "\<not> escapeNext (bracket_scan_of s)"
  shows "bracket_scan_of (closeOpenBrackets s) = bracket_init"
proof -
  let ?st = "bracket_scan_of s"
  let ?q = "if inString ?st then [dquote] else []"
  let ?st1 = "?st\<lparr>inString := False\<rparr>"
  have q: "foldl bracket_step ?st ?q = ?st1"
    using assms by (simp add: bracket_step_def)
  have "foldl bracket_step ?st1 (rev (stack ?st1)) = ?st1\<lparr>stack := []\<rparr>"
    using assms stack_chars [of s] by (intro pop_closers) simp_all
  then have "foldl bracket_step ?st1 (rev (stack ?st)) = bracket_init"
    using assms by (simp add: bracket_init_def)
  with q show ?thesis
    unfolding closeOpenBrackets_eq
    by (simp add: bracket_scan_of_def del: foldl_append add: foldl_append [of bracket_step])
qed


text \<open>
  C10. \<open>closeOpenBrackets\<close> returns its input followed by a double quote, when the scan
  ends inside a string, and by the closer of every opener that is still unmatched outside
  strings, innermost first; nothing else is added and no character of the input is changed.
  Unless the input ends in the middle of an escape (a trailing backslash), scanning the
  output again ends outside strings with no opener left unmatched.
\<close>

theorem closeOpenBrackets_only_appends:
  "closeOpenBrackets s =
     s @ (if inString (bracket_scan_of s) then [dquote] else [])
       @ map closer_of (rev (unmatched_openers s)) \<and>
   set (unmatched_openers s) \<subseteq> {CHR ''{'', CHR ''[''} \<and>
   (\<not> escapeNext (bracket_scan_of s) \<longrightarrow>
      unmatched_openers (closeOpenBrackets s) = [] \<and>
      \<not> inString (bracket_scan_of (closeOpenBrackets s)))"
proof -
  have a: "closeOpenBrackets s =
     s @ (if inString (bracket_scan_of s) then [dquote] else [])
       @ map closer_of (rev (unmatched_openers s))"
    by (simp add: closeOpenBrackets_eq stack_unmatched rev_map)
  have c: "unmatched_openers (closeOpenBrackets s) = [] \<and>
      \<not> inString (bracket_scan_of (closeOpenBrackets s))"
    if "\<not> escapeNext (bracket_scan_of s)"
  proof -
    from that have r: "bracket_scan_of (closeOpenBrackets s) = bracket_init"
      by (rule rescan_closed)
    have "map closer_of (unmatched_openers (closeOpenBrackets s)) = []"
      using stack_unmatched [of "closeOpenBrackets s"] by (simp add: r bracket_init_def)
    then show ?thesis by (simp add: r bracket_init_def)
  qed
  from a unmatched_openers_chars [of s] c show ?thesis by blast
qed

theorem closeOpenBrackets_only_appends_witness:
  \<open>\<not> escapeNext (bracket_scan_of ''{"a":[1,{"b":"x'') \<and>
   inString (bracket_scan_of ''{"a":[1,{"b":"x'') \<and>
   unmatched_openers ''{"a":[1,{"b":"x'' = ''{[{'' \<and>
   closeOpenBrackets ''{"a":[1,{"b":"x'' = ''{"a":[1,{"b":"x"}]}'' \<and>
   unmatched_openers ''{"a":[1,{"b":"x"}]}'' = [] \<and>
   \<not> inString (bracket_scan_of ''{"a":[1,{"b":"x"}]}'')\<close>
proof -
  have e: \<open>bracket_scan_of ''{"a":[1,{"b":"x'' =
      \<lparr>inString = True, escapeNext = False, stack = ''}]}''\<rparr>\<close>
    by (simp add: bracket_scan_of_def bracket_init_def bracket_step_def)
  have u: \<open>unmatched_openers ''{"a":[1,{"b":"x'' = ''{[{''\<close>
    by (simp add: unmatched_openers_def opener_init_def opener_step_def closer_of_def)
  note t = closeOpenBrackets_only_appends [of \<open>''{"a":[1,{"b":"x''\<close>]
  have a: \<open>closeOpenBrackets ''{"a":[1,{"b":"x'' = ''{"a":[1,{"b":"x"}]}''\<close>
    using t [THEN conjunct1] by (simp add: e u closer_of_def)
  have b: \<open>unmatched_openers (closeOpenBrackets ''{"a":[1,{"b":"x'') = [] \<and>
      \<not> inString (bracket_scan_of (closeOpenBrackets ''{"a":[1,{"b":"x''))\<close>
    using t [THEN conjunct2, THEN conjunct2] by (simp add: e)
  from b show ?thesis
    unfolding a by (simp add: e u)
qed


section \<open>Documents as JSON values\<close>

text \<open>
  A parsed response is a JSON value. String values and keys are sequences of UTF-16 code
  units, kept as natural numbers so that a \<open>\u\<close> escape of any value has a place; numbers
  are exact reals. An object is the list of its members in order of first appearance.
\<close>

type_synonym ustring = "nat list"

definition ustr :: "string \<Rightarrow> ustring" where
  "ustr s = map of_char s"

datatype json =
    JNull
  | JBool bool
  | JNum real
  | JStr ustring
  | JArr "json list"
  | JObj "(ustring \<times> json) list"

text \<open>
  Reading a property of a value that is neither \<open>null\<close> nor \<open>undefined\<close>. \<open>None\<close> is
  \<open>undefined\<close>. Of the property names the validators read (\<open>company\<close>, \<open>name\<close>,
  \<open>design\<close>, \<open>slides\<close>, \<open>type\<close>, \<open>citations\<close>, \<open>length\<close>), strings and arrays have
  \<open>length\<close> only, numbers and booleans none.
\<close>

fun get_prop :: "json \<Rightarrow> string \<Rightarrow> json option" where
  "get_prop (JObj ms) k = map_of ms (ustr k)"
| "get_prop (JStr s) k = (if k = ''length'' then Some (JNum (real (length s))) else None)"
| "get_prop (JArr xs) k = (if k = ''length'' then Some (JNum (real (length xs))) else None)"
| "get_prop v k = None"

text \<open>Truthiness of a value that may be \<open>undefined\<close>.\<close>

fun truthy :: "json option \<Rightarrow> bool" where
  "truthy None = False"
| "truthy (Some JNull) = False"
| "truthy (Some (JBool b)) = b"
| "truthy (Some (JNum n)) = (n \<noteq> 0)"
| "truthy (Some (JStr s)) = (s \<noteq> [])"
| "truthy (Some (JArr xs)) = True"
| "truthy (Some (JObj ms)) = True"

section \<open>Validation of synthesis output and deck configuration\<close>

definition SLIDE_TYPES :: "string list" where
  "SLIDE_TYPES =
     [''title'', ''purpose'', ''problem'', ''solution'', ''whyNow'', ''marketSize'',
      ''competition'', ''product'', ''businessModel'', ''traction'', ''team'', ''ask'']"

text \<open>
  The messages pushed onto \<open>errors\<close> and \<open>warnings\<close>, by kind and argument; the citation
  warning carries the value of \<open>slide.type\<close> that its message prints. What a validator
  throws: \<open>TypeError\<close> is the language's own error on reading a property of \<open>null\<close> or on
  calling \<open>map\<close> on a value that has none.
\<close>

datatype finding =
    MissingCompanyName
  | MissingDesign
  | MissingSlidesArray
  | MissingSlideType string
  | NoCitations "json option"
  | TBDEntries nat

datatype validation_exn = TypeError | ValidationFailed "finding list"

record validation =
  valid :: bool
  errors :: "finding list"
  warnings :: "finding list"

text \<open>\<open>output.company?.name\<close> for a value \<open>output\<close> that is not \<open>null\<close>.\<close>

definition company_name :: "json \<Rightarrow> json option" where
  "company_name output =
     (case get_prop output ''company'' of
        None \<Rightarrow> None
      | Some JNull \<Rightarrow> None
      | Some c \<Rightarrow> get_prop c ''name'')"

text \<open>The set \<open>foundTypes\<close> holds the values of \<open>s.type\<close>; a slide type is a string.\<close>

definition type_found :: "json list \<Rightarrow> string \<Rightarrow> bool" where
  "type_found slides t = list_ex (\<lambda>s. get_prop s ''type'' = Some (JStr (ustr t))) slides"

definition missing_types :: "json list \<Rightarrow> finding list" where
  "missing_types slides =
     map MissingSlideType (filter (\<lambda>t. \<not> type_found slides t) SLIDE_TYPES)"

text \<open>\<open>!slide.citations || slide.citations.length === 0\<close>, for a slide that is not \<open>null\<close>.\<close>

definition no_citations :: "json \<Rightarrow> bool" where
  "no_citations slide =
     (\<not> truthy (get_prop slide ''citations'') \<or>
      (case get_prop slide ''citations'' of
         Some c \<Rightarrow> get_prop c ''length'' = Some (JNum 0)
       | None \<Rightarrow> False))"

definition validateSynthesisOutput :: "json \<Rightarrow> validation_exn + validation" where
  "validateSynthesisOutput output =
     (if output = JNull then Inl TypeError
      else
        let w1 = (if \<not> truthy (company_name output) then [MissingCompanyName] else [])
        in case get_prop output ''slides'' of
             Some (JArr slides) \<Rightarrow>
               if JNull \<in> set slides then Inl TypeError
               else
                 let w2 = w1 @ missing_types slides;
                     w3 = w2 @ map (\<lambda>s. NoCitations (get_prop s ''type'')) (filter no_citations slides)
                 in Inr \<lparr>valid = True, errors = [], warnings = w3\<rparr>
           | _ \<Rightarrow> Inr \<lparr>valid = False, errors = [MissingSlidesArray], warnings = w1\<rparr>)"

text \<open>
  \<open>validateDeckConfig\<close>. The number of \<open>[TBD\<close> matches in \<open>JSON.stringify(config.slides)\<close>
  is given by the parameter \<open>tbd\<close>. A \<open>slides\<close> value that is truthy but no array has no
  \<open>map\<close>: the call raises the language's \<open>TypeError\<close> before the errors are looked at.
\<close>

definition validateDeckConfig :: "(json \<Rightarrow> nat) \<Rightarrow> json \<Rightarrow> validation_exn + validation" where
  "validateDeckConfig tbd config =
     (if config = JNull then Inl TypeError
      else
        let e1 = (if \<not> truthy (company_name config) then [MissingCompanyName] else []);
            w1 = (if \<not> truthy (get_prop config ''design'') then [MissingDesign] else []);
            slides = get_prop config ''slides'';
            e2 = e1 @ (case slides of Some (JArr xs) \<Rightarrow> [] | _ \<Rightarrow> [MissingSlidesArray])
        in if \<not> truthy slides then
             (if e2 \<noteq> [] then Inl (ValidationFailed e2)
              else Inr \<lparr>valid = True, errors = e2, warnings = w1\<rparr>)
           else
             (case slides of
                Some (JArr xs) \<Rightarrow>
                  if JNull \<in> set xs then Inl TypeError
                  else
                    let w2 = w1 @ missing_types xs;
                        tbdCount = tbd (JArr xs);
                        w3 = w2 @ (if tbdCount > 0 then [TBDEntries tbdCount] else [])
                    in if e2 \<noteq> [] then Inl (ValidationFailed e2)
                       else Inr \<lparr>valid = True, errors = e2, warnings = w3\<rparr>
              | _ \<Rightarrow> Inl TypeError))"


subsection \<open>Missing slide types are warnings\<close>

lemma ustr_eq_iff: "(ustr s = ustr t) = (s = t)"
  by (auto simp: ustr_def inj_on_def dest!: map_inj_on [where f = of_char])

text \<open>
  C7. A synthesis output or deck configuration with a company name and a \<open>slides\<close> array
  (of slide objects: no element is \<open>null\<close>) is returned as valid by both validators, with an
  empty error list, whichever of the twelve slide types are absent; each absent type is
  among the warnings. Whatever the elements are, neither validator raises its validation
  failure.
\<close>

theorem validators_only_warn_on_missing_slide_types:
  assumes name: "truthy (company_name doc)"
    and slides: "get_prop doc ''slides'' = Some (JArr xs)"
  shows "(JNull \<notin> set xs \<longrightarrow>
           (\<exists>ws. validateSynthesisOutput doc = Inr \<lparr>valid = True, errors = [], warnings = ws\<rparr> \<and>
                 set (missing_types xs) \<subseteq> set ws) \<and>
           (\<exists>ws. validateDeckConfig tbd doc = Inr \<lparr>valid = True, errors = [], warnings = ws\<rparr> \<and>
                 set (missing_types xs) \<subseteq> set ws)) \<and>
         (\<forall>es. validateSynthesisOutput doc \<noteq> Inl (ValidationFailed es)) \<and>
         (\<forall>es. validateDeckConfig tbd doc \<noteq> Inl (ValidationFailed es))"
proof -
  from slides have nn: "doc \<noteq> JNull" by auto
  have s: "validateSynthesisOutput doc =
      (if JNull \<in> set xs then Inl TypeError
       else Inr \<lparr>valid = True, errors = [],
              warnings = missing_types xs @
                map (\<lambda>s. NoCitations (get_prop s ''type'')) (filter no_citations xs)\<rparr>)"
    using name slides nn by (simp add: validateSynthesisOutput_def Let_def)
  have d: "validateDeckConfig tbd doc =
      (if JNull \<in> set xs then Inl TypeError
       else Inr \<lparr>valid = True, errors = [],
              warnings = (if \<not> truthy (get_prop doc ''design'') then [MissingDesign] else []) @
                missing_types xs @
                (if tbd (JArr xs) > 0 then [TBDEntries (tbd (JArr xs))] else [])\<rparr>)"
    using name slides nn by (simp add: validateDeckConfig_def Let_def)
  show ?thesis
    unfolding s d by auto
qed

text \<open>A document with a company name and the title slide only: eleven types are missing.\<close>

definition title_slide :: json where
  "title_slide = JObj [(ustr ''type'', JStr (ustr ''title''))]"

definition one_slide_doc :: json where
  "one_slide_doc =
     JObj [(ustr ''company'', JObj [(ustr ''name'', JStr (ustr ''Acme''))]),
           (ustr ''slides'', JArr [title_slide])]"

theorem validators_only_warn_on_missing_slide_types_witness:
  "truthy (company_name one_slide_doc) \<and>
   get_prop one_slide_doc ''slides'' = Some (JArr [title_slide]) \<and>
   JNull \<notin> set [title_slide] \<and>
   length (missing_types [title_slide]) = 11 \<and>
   (\<exists>ws. validateSynthesisOutput one_slide_doc = Inr \<lparr>valid = True, errors = [], warnings = ws\<rparr> \<and>
         set (missing_types [title_slide]) \<subseteq> set ws) \<and>
   (\<exists>ws. validateDeckConfig (\<lambda>v. 0) one_slide_doc = Inr \<lparr>valid = True, errors = [], warnings = ws\<rparr> \<and>
         set (missing_types [title_slide]) \<subseteq> set ws)"
proof -
  have n: "truthy (company_name one_slide_doc)"
    by (simp add: one_slide_doc_def company_name_def ustr_eq_iff) (simp add: ustr_def)
  have s: "get_prop one_slide_doc ''slides'' = Some (JArr [title_slide])"
    by (simp add: one_slide_doc_def ustr_eq_iff)
  have z: "JNull \<notin> set [title_slide]"
    by (simp add: title_slide_def)
  have m: "length (missing_types [title_slide]) = 11"
    by (simp add: missing_types_def SLIDE_TYPES_def type_found_def title_slide_def ustr_eq_iff)
  from validators_only_warn_on_missing_slide_types [OF n s, of "\<lambda>v. 0"] z n s m
  show ?thesis by blast
qed

section \<open>Aggregate gap analysis (claude-classifier: analyzeAggregateGaps)\<close>

text \<open>
  The part of the aggregated classification that the gap analysis reads: per slide type the
  content items (\<open>type\<close> and \<open>content\<close>, either may be absent), the relevant sources with
  their scores, and \<open>dataQuality.completeness\<close>. Scores are exact reals.
\<close>

record content_item =
  item_type :: "string option"
  item_content :: "string option"

record relevant_source =
  relevanceScore :: real

record slide_data =
  relevantSources :: "relevant_source list"
  allContent :: "content_item list"
  completeness :: real

type_synonym slides = "string \<rightharpoonup> slide_data"

text \<open>The table of the function, in the order of its keys. It has no entry for \<open>purpose\<close>.\<close>

definition criticalRequirements :: "(string \<times> string list) list" where
  "criticalRequirements =
     [(''title'', [''company_name'', ''tagline'']),
      (''problem'', [''pain_point'', ''statistic'']),
      (''solution'', [''value_proposition'', ''feature'']),
      (''whyNow'', [''timing_factor'', ''trend'']),
      (''marketSize'', [''tam'', ''sam'', ''market_size'', ''market'']),
      (''competition'', [''competitor'', ''differentiation'']),
      (''product'', [''feature'', ''capability'']),
      (''businessModel'', [''revenue_model'', ''pricing'', ''unit_economics'']),
      (''traction'', [''metric'', ''milestone'', ''customer'']),
      (''team'', [''founder'', ''executive'', ''background'', ''bio'']),
      (''ask'', [''funding_amount'', ''use_of_funds''])]"

text \<open>\<open>req.replace("_", " ")\<close> replaces the first underscore only.\<close>

fun replace_underscore :: "string \<Rightarrow> string" where
  "replace_underscore [] = []"
| "replace_underscore (c # cs) = (if c = CHR ''_'' then CHR '' '' # cs else c # replace_underscore cs)"

text \<open>\<open>xs.join(" ")\<close>.\<close>

fun join_space :: "string list \<Rightarrow> string" where
  "join_space [] = []"
| "join_space [x] = x"
| "join_space (x # y # ys) = x @ CHR '' '' # join_space (y # ys)"

text \<open>\<open>[...new Set(gaps)]\<close>: the first occurrence of every element, in order.\<close>

definition unique :: "'a list \<Rightarrow> 'a list" where
  "unique xs = foldl (\<lambda>acc x. if x \<in> set acc then acc else acc @ [x]) [] xs"

definition or_empty :: "string option \<Rightarrow> string" where
  "or_empty v = (case v of None \<Rightarrow> [] | Some x \<Rightarrow> x)"

text \<open>The gaps that one entry of the table contributes.\<close>

definition slide_gaps :: "slides \<Rightarrow> string \<times> string list \<Rightarrow> string list" where
  "slide_gaps sl entry =
     (case entry of (slideType, requirements) \<Rightarrow>
        (case sl slideType of
           None \<Rightarrow> []
         | Some slide \<Rightarrow>
             let contentTypes = map (\<lambda>c. toLowerCase (or_empty (item_type c))) (allContent slide);
                 contentText = join_space (map (\<lambda>c. toLowerCase (or_empty (item_content c))) (allContent slide));
                 hasContent = (length (allContent slide) > 0);
                 hasHighQualitySource = list_ex (\<lambda>s. relevanceScore s > 0.7) (relevantSources slide)
             in if \<not> hasContent \<and> \<not> hasHighQualitySource then [slideType @ '': No content found'']
                else if completeness slide < 0.3 then
                  concat (map (\<lambda>req.
                     let hasReq = (list_ex (\<lambda>t. str_includes t req) contentTypes \<or>
                                   str_includes contentText (replace_underscore req))
                     in if \<not> hasReq \<and> length (allContent slide) < 2
                        then [slideType @ '': Limited '' @ replace_underscore req @ '' information'']
                        else []) requirements)
                else []))"

definition all_gaps :: "slides \<Rightarrow> string list" where
  "all_gaps sl = concat (map (slide_gaps sl) criticalRequirements)"

definition analyzeAggregateGaps :: "slides \<Rightarrow> string list" where
  "analyzeAggregateGaps sl = take 10 (unique (all_gaps sl))"


subsection \<open>Properties of the gap analysis\<close>

lemma unique_snoc:
  "unique (xs @ [x]) = (if x \<in> set (unique xs) then unique xs else unique xs @ [x])"
  by (simp add: unique_def)

lemma set_unique: "set (unique xs) = set xs"
  by (induction xs rule: rev_induct) (auto simp: unique_snoc, simp add: unique_def)

lemma no_content_gap:
  assumes "sl t = Some slide" "allContent slide = []"
    "\<not> list_ex (\<lambda>s. relevanceScore s > 0.7) (relevantSources slide)"
  shows "slide_gaps sl (t, reqs) = [t @ '': No content found'']"
  using assms by (simp add: slide_gaps_def)

text \<open>
  C8, as the code has it. For a slide type with an entry in the table of critical
  requirements, whose aggregate holds no content item and no source with a relevance above
  0.7, the distinct gaps contain \<open>type: No content found\<close>; the report is their first ten,
  so it lists the type whenever no more than ten distinct gaps were found.
\<close>

theorem gap_report_lists_type_without_content:
  assumes entry: "(t, reqs) \<in> set criticalRequirements"
    and slide: "sl t = Some slide"
    and no_items: "allContent slide = []"
    and no_source: "\<not> list_ex (\<lambda>s. relevanceScore s > 0.7) (relevantSources slide)"
  shows "t @ '': No content found'' \<in> set (unique (all_gaps sl)) \<and>
         (length (unique (all_gaps sl)) \<le> 10 \<longrightarrow>
            t @ '': No content found'' \<in> set (analyzeAggregateGaps sl))"
proof -
  have "slide_gaps sl (t, reqs) = [t @ '': No content found'']"
    using slide no_items no_source by (rule no_content_gap)
  with entry have "t @ '': No content found'' \<in> set (all_gaps sl)"
    unfolding all_gaps_def set_concat by force
  then have u: "t @ '': No content found'' \<in> set (unique (all_gaps sl))"
    by (simp add: set_unique)
  then show ?thesis
    by (simp add: analyzeAggregateGaps_def)
qed

text \<open>
  Two aggregates as \<open>mergeClassifications\<close> builds them: one where no slide type has any
  content, and one where only the funding ask has none.
\<close>

definition empty_slide :: slide_data where
  "empty_slide = \<lparr>relevantSources = [], allContent = [], completeness = 0\<rparr>"

definition covered_slide :: slide_data where
  "covered_slide =
     \<lparr>relevantSources = [\<lparr>relevanceScore = 0.9\<rparr>, \<lparr>relevanceScore = 0.8\<rparr>, \<lparr>relevanceScore = 0.5\<rparr>],
      allContent = [\<lparr>item_type = Some ''fact'', item_content = Some ''Revenue grew''\<rparr>],
      completeness = 1\<rparr>"

definition no_content_anywhere :: slides where
  "no_content_anywhere t = (if t \<in> set SLIDE_TYPES then Some empty_slide else None)"

definition only_ask_missing :: slides where
  "only_ask_missing t =
     (if t = ''ask'' then Some empty_slide
      else if t \<in> set SLIDE_TYPES then Some covered_slide else None)"

theorem gap_report_lists_type_without_content_witness:
  "(''ask'', [''funding_amount'', ''use_of_funds'']) \<in> set criticalRequirements \<and>
   only_ask_missing ''ask'' = Some empty_slide \<and>
   allContent empty_slide = [] \<and>
   \<not> list_ex (\<lambda>s. relevanceScore s > 0.7) (relevantSources empty_slide) \<and>
   length (unique (all_gaps only_ask_missing)) \<le> 10 \<and>
   ''ask: No content found'' \<in> set (analyzeAggregateGaps only_ask_missing)"
proof -
  have e: "(''ask'', [''funding_amount'', ''use_of_funds'']) \<in> set criticalRequirements"
    by (simp add: criticalRequirements_def)
  have s: "only_ask_missing ''ask'' = Some empty_slide"
    by (simp add: only_ask_missing_def)
  have a: "allContent empty_slide = []"
    "\<not> list_ex (\<lambda>s. relevanceScore s > 0.7) (relevantSources empty_slide)"
    by (simp_all add: empty_slide_def)
  have g: "all_gaps only_ask_missing = [''ask: No content found'']"
    by (simp add: all_gaps_def criticalRequirements_def slide_gaps_def only_ask_missing_def
        SLIDE_TYPES_def empty_slide_def covered_slide_def)
  have l: "length (unique (all_gaps only_ask_missing)) \<le> 10"
    by (simp add: g unique_def)
  from gap_report_lists_type_without_content
         [of "''ask''" "[''funding_amount'', ''use_of_funds'']" only_ask_missing empty_slide,
          OF e s a] l e s a
  show ?thesis by simp
qed

text \<open>
  C8 as stated fails: when no slide type has any content, the funding ask has none either,
  and the report stops after ten entries without it.
\<close>

theorem gap_report_omits_eleventh_type:
  "no_content_anywhere ''ask'' = Some empty_slide \<and>
   allContent empty_slide = [] \<and>
   relevantSources empty_slide = [] \<and>
   analyzeAggregateGaps no_content_anywhere =
     [''title: No content found'', ''problem: No content found'',
      ''solution: No content found'', ''whyNow: No content found'',
      ''marketSize: No content found'', ''competition: No content found'',
      ''product: No content found'', ''businessModel: No content found'',
      ''traction: No content found'', ''team: No content found'']"
  by (simp add: no_content_anywhere_def SLIDE_TYPES_def empty_slide_def
      analyzeAggregateGaps_def all_gaps_def criticalRequirements_def slide_gaps_def unique_def)


section \<open>The built-in JSON.parse\<close>

text \<open>
  \<open>JSON.parse\<close> belongs to the language, not to the repository. It is modelled as the
  recogniser of the JSON grammar (ECMA-404, as ECMAScript reads it) that works through the
  text one character at a time: the state holds the containers that are open, innermost
  first, and what is expected next. Texts are 8-bit strings. A number is the exact value
  of its literal.
\<close>

datatype frame =
    FArr "json list"
  | FObj "(ustring \<times> json) list"
  | FMem "(ustring \<times> json) list" ustring

text \<open>
  \<open>FArr es\<close>: an open array with the elements \<open>es\<close> so far. \<open>FObj ms\<close>: an open object
  with the members \<open>ms\<close>, before a key. \<open>FMem ms k\<close>: the same object once the key
  \<open>k\<close> has been read, until the value of \<open>k\<close> is complete.
\<close>

datatype numstate = NMinus | NZero | NInt | NDot | NFrac | NE | NESign | NExp

text \<open>The letters read so far of \<open>true\<close>, \<open>false\<close> or \<open>null\<close>.\<close>

datatype litstate = T1 | T2 | T3 | F1 | F2 | F3 | F4 | N1 | N2 | N3

record numacc =
  n_neg :: bool
  n_mant :: nat
  n_scale :: nat
  n_eneg :: bool
  n_exp :: nat

datatype mode =
    MValue
  | MArrStart
  | MObjStart
  | MKey
  | MColon
  | MAfter json
  | MStr bool ustring
  | MEsc bool ustring
  | MHex bool ustring nat nat
  | MNum numstate numacc
  | MLit litstate

text \<open>
  \<open>MValue\<close>: a value must follow. \<open>MArrStart\<close>, \<open>MObjStart\<close>: just after the opening
  bracket. \<open>MKey\<close>: after the comma of an object. \<open>MColon\<close>: after a key.
  \<open>MAfter v\<close>: the value \<open>v\<close> is complete. \<open>MStr key cs\<close>: inside a string literal
  (\<open>key\<close> tells a key from a value) with the code units \<open>cs\<close> so far; \<open>MEsc\<close> after a
  backslash; \<open>MHex key cs n x\<close> after \<open>n\<close> hexadecimal digits of a \<open>\u\<close> escape.
  \<open>MNum\<close>: inside a number. \<open>MLit l\<close>: inside \<open>true\<close>, \<open>false\<close> or \<open>null\<close>.
\<close>

datatype pstate = Err | St "frame list" mode

definition json_ws :: "char \<Rightarrow> bool" where
  "json_ws c \<longleftrightarrow> c = CHR '' '' \<or> c = CHR 0x09 \<or> c = CHR 0x0A \<or> c = CHR 0x0D"

definition is_digit :: "char \<Rightarrow> bool" where
  "is_digit c \<longleftrightarrow> 48 \<le> (of_char c :: nat) \<and> (of_char c :: nat) \<le> 57"

definition digit_val :: "char \<Rightarrow> nat" where
  "digit_val c = of_char c - 48"

definition hex_val :: "char \<Rightarrow> nat option" where
  "hex_val c =
     (let n = (of_char c :: nat)
      in if 48 \<le> n \<and> n \<le> 57 then Some (n - 48)
         else if 97 \<le> n \<and> n \<le> 102 then Some (n - 87)
         else if 65 \<le> n \<and> n \<le> 70 then Some (n - 55)
         else None)"

text \<open>Defining a property: a repeated key keeps its place and takes the new value.\<close>

fun obj_put :: "(ustring \<times> json) list \<Rightarrow> ustring \<Rightarrow> json \<Rightarrow> (ustring \<times> json) list" where
  "obj_put [] k v = [(k, v)]"
| "obj_put ((k', v') # ms) k v = (if k' = k then (k, v) # ms else (k', v') # obj_put ms k v)"

definition num_init :: numacc where
  "num_init = \<lparr>n_neg = False, n_mant = 0, n_scale = 0, n_eneg = False, n_exp = 0\<rparr>"

definition num_value :: "numacc \<Rightarrow> real" where
  "num_value a =
     (if n_neg a then - 1 else 1) * (real (n_mant a) / 10 ^ n_scale a) *
     (if n_eneg a then 1 / 10 ^ n_exp a else 10 ^ n_exp a)"

definition num_complete :: "numstate \<Rightarrow> bool" where
  "num_complete ns \<longleftrightarrow> ns = NZero \<or> ns = NInt \<or> ns = NFrac \<or> ns = NExp"

text \<open>The next state of a number on a character that continues it.\<close>

fun num_step :: "numstate \<Rightarrow> numacc \<Rightarrow> char \<Rightarrow> (numstate \<times> numacc) option" where
  "num_step NMinus a c =
     (if c = CHR ''0'' then Some (NZero, a)
      else if is_digit c then Some (NInt, a\<lparr>n_mant := digit_val c\<rparr>)
      else None)"
| "num_step NZero a c =
     (if c = CHR ''.'' then Some (NDot, a)
      else if c = CHR ''e'' \<or> c = CHR ''E'' then Some (NE, a)
      else None)"
| "num_step NInt a c =
     (if is_digit c then Some (NInt, a\<lparr>n_mant := 10 * n_mant a + digit_val c\<rparr>)
      else if c = CHR ''.'' then Some (NDot, a)
      else if c = CHR ''e'' \<or> c = CHR ''E'' then Some (NE, a)
      else None)"
| "num_step NDot a c =
     (if is_digit c
      then Some (NFrac, a\<lparr>n_mant := 10 * n_mant a + digit_val c, n_scale := n_scale a + 1\<rparr>)
      else None)"
| "num_step NFrac a c =
     (if is_digit c
      then Some (NFrac, a\<lparr>n_mant := 10 * n_mant a + digit_val c, n_scale := n_scale a + 1\<rparr>)
      else if c = CHR ''e'' \<or> c = CHR ''E'' then Some (NE, a)
      else None)"
| "num_step NE a c =
     (if c = CHR ''+'' then Some (NESign, a)
      else if c = CHR ''-'' then Some (NESign, a\<lparr>n_eneg := True\<rparr>)
      else if is_digit c then Some (NExp, a\<lparr>n_exp := digit_val c\<rparr>)
      else None)"
| "num_step NESign a c =
     (if is_digit c then Some (NExp, a\<lparr>n_exp := digit_val c\<rparr>) else None)"
| "num_step NExp a c =
     (if is_digit c then Some (NExp, a\<lparr>n_exp := 10 * n_exp a + digit_val c\<rparr>) else None)"

text \<open>
  The next letter of a literal: the literal goes on (\<open>Inl\<close>), or is complete with its
  value (\<open>Inr\<close>).
\<close>

fun lit_step :: "litstate \<Rightarrow> char \<Rightarrow> (litstate + json) option" where
  "lit_step T1 c = (if c = CHR ''r'' then Some (Inl T2) else None)"
| "lit_step T2 c = (if c = CHR ''u'' then Some (Inl T3) else None)"
| "lit_step T3 c = (if c = CHR ''e'' then Some (Inr (JBool True)) else None)"
| "lit_step F1 c = (if c = CHR ''a'' then Some (Inl F2) else None)"
| "lit_step F2 c = (if c = CHR ''l'' then Some (Inl F3) else None)"
| "lit_step F3 c = (if c = CHR ''s'' then Some (Inl F4) else None)"
| "lit_step F4 c = (if c = CHR ''e'' then Some (Inr (JBool False)) else None)"
| "lit_step N1 c = (if c = CHR ''u'' then Some (Inl N2) else None)"
| "lit_step N2 c = (if c = CHR ''l'' then Some (Inl N3) else None)"
| "lit_step N3 c = (if c = CHR ''l'' then Some (Inr JNull) else None)"

text \<open>The first character of a value.\<close>

definition start_value :: "frame list \<Rightarrow> char \<Rightarrow> pstate" where
  "start_value fs c =
     (if c = dquote then St fs (MStr False [])
      else if c = CHR ''{'' then St (FObj [] # fs) MObjStart
      else if c = CHR ''['' then St (FArr [] # fs) MArrStart
      else if c = CHR ''-'' then St fs (MNum NMinus (num_init\<lparr>n_neg := True\<rparr>))
      else if c = CHR ''0'' then St fs (MNum NZero num_init)
      else if is_digit c then St fs (MNum NInt (num_init\<lparr>n_mant := digit_val c\<rparr>))
      else if c = CHR ''t'' then St fs (MLit T1)
      else if c = CHR ''f'' then St fs (MLit F1)
      else if c = CHR ''n'' then St fs (MLit N1)
      else Err)"

text \<open>A character after the complete value \<open>v\<close>.\<close>

definition after_value :: "frame list \<Rightarrow> json \<Rightarrow> char \<Rightarrow> pstate" where
  "after_value fs v c =
     (if json_ws c then St fs (MAfter v)
      else if c = CHR '','' then
        (case fs of
           FArr es # r \<Rightarrow> St (FArr (es @ [v]) # r) MValue
         | FMem ms k # r \<Rightarrow> St (FObj (obj_put ms k v) # r) MKey
         | _ \<Rightarrow> Err)
      else if c = CHR '']'' then
        (case fs of FArr es # r \<Rightarrow> St r (MAfter (JArr (es @ [v]))) | _ \<Rightarrow> Err)
      else if c = CHR ''}'' then
        (case fs of FMem ms k # r \<Rightarrow> St r (MAfter (JObj (obj_put ms k v))) | _ \<Rightarrow> Err)
      else Err)"

text \<open>The closing quote of a string: a key waits for its colon, a value is complete.\<close>

definition end_string :: "frame list \<Rightarrow> bool \<Rightarrow> ustring \<Rightarrow> pstate" where
  "end_string fs key cs =
     (if key then (case fs of FObj ms # r \<Rightarrow> St (FMem ms cs # r) MColon | _ \<Rightarrow> Err)
      else St fs (MAfter (JStr cs)))"

definition escape_unit :: "char \<Rightarrow> nat option" where
  "escape_unit c =
     (if c = dquote then Some 34 else if c = bslash then Some 92
      else if c = CHR ''/'' then Some 47 else if c = CHR ''b'' then Some 8
      else if c = CHR ''f'' then Some 12 else if c = CHR ''n'' then Some 10
      else if c = CHR ''r'' then Some 13 else if c = CHR ''t'' then Some 9
      else None)"

fun step :: "pstate \<Rightarrow> char \<Rightarrow> pstate" where
  "step Err c = Err"
| "step (St fs MValue) c = (if json_ws c then St fs MValue else start_value fs c)"
| "step (St fs MArrStart) c =
     (if json_ws c then St fs MArrStart
      else if c = CHR '']'' then
        (case fs of FArr es # r \<Rightarrow> St r (MAfter (JArr es)) | _ \<Rightarrow> Err)
      else start_value fs c)"
| "step (St fs MObjStart) c =
     (if json_ws c then St fs MObjStart
      else if c = CHR ''}'' then
        (case fs of FObj ms # r \<Rightarrow> St r (MAfter (JObj ms)) | _ \<Rightarrow> Err)
      else if c = dquote then St fs (MStr True [])
      else Err)"
| "step (St fs MKey) c =
     (if json_ws c then St fs MKey
      else if c = dquote then St fs (MStr True [])
      else Err)"
| "step (St fs MColon) c =
     (if json_ws c then St fs MColon
      else if c = CHR '':'' then St fs MValue
      else Err)"
| "step (St fs (MAfter v)) c = after_value fs v c"
| "step (St fs (MStr key cs)) c =
     (if c = dquote then end_string fs key cs
      else if c = bslash then St fs (MEsc key cs)
      else if (of_char c :: nat) < 32 then Err
      else St fs (MStr key (cs @ [of_char c])))"
| "step (St fs (MEsc key cs)) c =
     (if c = CHR ''u'' then St fs (MHex key cs 0 0)
      else (case escape_unit c of
              Some u \<Rightarrow> St fs (MStr key (cs @ [u]))
            | None \<Rightarrow> Err))"
| "step (St fs (MHex key cs n x)) c =
     (case hex_val c of
        Some d \<Rightarrow>
          if n = 3 then St fs (MStr key (cs @ [16 * x + d]))
          else St fs (MHex key cs (n + 1) (16 * x + d))
      | None \<Rightarrow> Err)"
| "step (St fs (MNum ns a)) c =
     (case num_step ns a c of
        Some (ns', a') \<Rightarrow> St fs (MNum ns' a')
      | None \<Rightarrow> if num_complete ns then after_value fs (JNum (num_value a)) c else Err)"
| "step (St fs (MLit l)) c =
     (case lit_step l c of
        Some (Inl l') \<Rightarrow> St fs (MLit l')
      | Some (Inr v) \<Rightarrow> St fs (MAfter v)
      | None \<Rightarrow> Err)"

definition parse_init :: pstate where
  "parse_init = St [] MValue"

definition run :: "pstate \<Rightarrow> string \<Rightarrow> pstate" where
  "run st s = foldl step st s"

text \<open>At the end of the text the value must be complete and no container open.\<close>

fun finish :: "pstate \<Rightarrow> json option" where
  "finish (St [] (MAfter v)) = Some v"
| "finish (St [] (MNum ns a)) = (if num_complete ns then Some (JNum (num_value a)) else None)"
| "finish st = None"

definition JSON_parse :: "string \<Rightarrow> json option" where
  "JSON_parse s = finish (run parse_init s)"


section \<open>repairJSON and extractJSON\<close>

subsection \<open>The regular-expression passes\<close>

text \<open>The class \<open>\s\<close> of the regular expressions, and of \<open>trim\<close>, below 256.\<close>

definition is_space :: "char \<Rightarrow> bool" where
  "is_space c \<longleftrightarrow>
     c = CHR '' '' \<or> c = CHR 0x09 \<or> c = CHR 0x0A \<or> c = CHR 0x0B \<or> c = CHR 0x0C \<or>
     c = CHR 0x0D \<or> c = CHR 0xA0"

text \<open>
  \<open>text.replace(pattern, replacement)\<close> with a global pattern: the text is walked from the
  left; where the pattern matches, the replacement is written and the walk goes on behind
  the match, elsewhere the character is copied. \<open>m\<close> tells for a position (the rest of the
  text from there) whether the pattern matches, and then gives the replacement and the
  text behind the match. All patterns here match at least one character.
\<close>

function replace_all :: "(string \<Rightarrow> (string \<times> string) option) \<Rightarrow> string \<Rightarrow> string" where
  "replace_all m [] = []"
| "replace_all m (c # cs) =
     (case m (c # cs) of
        Some (out, rest) \<Rightarrow>
          if length rest < length (c # cs) then out @ replace_all m rest
          else c # replace_all m cs
      | None \<Rightarrow> c # replace_all m cs)"
  by pat_completeness auto
termination
  by (relation "measure (\<lambda>(m, s). length s)") auto

declare replace_all.simps(2) [simp del]

text \<open>Pass 1, \<open>/,(\s*[\]}])/g\<close> replaced by \<open>$1\<close>.\<close>

definition trailing_comma :: "string \<Rightarrow> (string \<times> string) option" where
  "trailing_comma s =
     (case s of
        c # cs \<Rightarrow>
          if c = CHR '','' then
            (case dropWhile is_space cs of
               d # rest \<Rightarrow>
                 if d = CHR '']'' \<or> d = CHR ''}'' then Some (takeWhile is_space cs @ [d], rest)
                 else None
             | [] \<Rightarrow> None)
          else None
      | [] \<Rightarrow> None)"

text \<open>
  Pass 2, \<open>/("|\d|true|false|null|\]|\})(\s*\n\s*)("|\[|\{)/g\<close> replaced by
  \<open>$1,$2$3\<close>. The alternatives of the first group begin with different characters, so
  at most one of them matches at a position. The second group is the whole run of
  white space behind it, which must hold a line feed.
\<close>

definition value_end :: "string \<Rightarrow> string option" where
  "value_end s =
     (case s of
        c # cs \<Rightarrow>
          if c = dquote then Some [c]
          else if is_digit c then Some [c]
          else if prefix ''true'' s then Some ''true''
          else if prefix ''false'' s then Some ''false''
          else if prefix ''null'' s then Some ''null''
          else if c = CHR '']'' \<or> c = CHR ''}'' then Some [c]
          else None
      | [] \<Rightarrow> None)"

definition missing_comma :: "string \<Rightarrow> (string \<times> string) option" where
  "missing_comma s =
     (case value_end s of
        Some tok \<Rightarrow>
          (let behind = drop (length tok) s;
               gap = takeWhile is_space behind
           in case dropWhile is_space behind of
                d # rest \<Rightarrow>
                  if CHR 0x0A \<in> set gap \<and> (d = dquote \<or> d = CHR ''['' \<or> d = CHR ''{'')
                  then Some (tok @ CHR '','' # gap @ [d], rest)
                  else None
              | [] \<Rightarrow> None)
      | None \<Rightarrow> None)"

text \<open>
  Passes 3 to 6, \<open>/\}(\s*)\{/g\<close> replaced by \<open>},$1{\<close> and the same for the pairs
  \<open>][\<close>, \<open>]{\<close> and \<open>}[\<close>.
\<close>

definition adjacent :: "char \<Rightarrow> char \<Rightarrow> string \<Rightarrow> (string \<times> string) option" where
  "adjacent a b s =
     (case s of
        c # cs \<Rightarrow>
          if c = a then
            (case dropWhile is_space cs of
               d # rest \<Rightarrow>
                 if d = b then Some (a # CHR '','' # takeWhile is_space cs @ [b], rest) else None
             | [] \<Rightarrow> None)
          else None
      | [] \<Rightarrow> None)"

text \<open>Pass 7, \<open>/,\s*,/g\<close> replaced by a single comma.\<close>

definition double_comma :: "string \<Rightarrow> (string \<times> string) option" where
  "double_comma s =
     (case s of
        c # cs \<Rightarrow>
          if c = CHR '','' then
            (case dropWhile is_space cs of
               d # rest \<Rightarrow> if d = CHR '','' then Some ([CHR '',''], rest) else None
             | [] \<Rightarrow> None)
          else None
      | [] \<Rightarrow> None)"

text \<open>Steps 1 to 7 of \<open>repairJSON\<close>, in order.\<close>

definition comma_passes :: "string \<Rightarrow> string" where
  "comma_passes jsonStr =
     (let r1 = replace_all trailing_comma jsonStr;
          r2 = replace_all missing_comma r1;
          r3 = replace_all (adjacent (CHR ''}'') (CHR ''{'')) r2;
          r4 = replace_all (adjacent (CHR '']'') (CHR ''['')) r3;
          r5 = replace_all (adjacent (CHR '']'') (CHR ''{'')) r4;
          r6 = replace_all (adjacent (CHR ''}'') (CHR ''['')) r5
      in replace_all double_comma r6)"

definition repairJSON :: "string \<Rightarrow> string" where
  "repairJSON jsonStr = closeOpenBrackets (fixStringEscaping (comma_passes jsonStr))"

subsection \<open>extractJSON\<close>

text \<open>The text before and behind the first occurrence of \<open>pat\<close>.\<close>

fun split_first :: "string \<Rightarrow> string \<Rightarrow> (string \<times> string) option" where
  "split_first pat [] = (if pat = [] then Some ([], []) else None)"
| "split_first pat (c # cs) =
     (if prefix pat (c # cs) then Some ([], drop (length pat) (c # cs))
      else (case split_first pat cs of
              Some (before, behind) \<Rightarrow> Some (c # before, behind)
            | None \<Rightarrow> None))"

definition fence :: string where
  "fence = ''```''"

text \<open>
  \<open>responseText.match(/```(?:json)?\s*([\s\S]*?)```/)\<close>, the first group: behind the first
  fence an optional \<open>json\<close> and white space are skipped, and the group runs up to the next
  fence. There is a match exactly when a second fence follows the first.
\<close>

definition codeBlockMatch :: "string \<Rightarrow> string option" where
  "codeBlockMatch responseText =
     (case split_first fence responseText of
        None \<Rightarrow> None
      | Some (before, behind) \<Rightarrow>
          (let behind' = (if prefix ''json'' behind then drop 4 behind else behind)
           in case split_first fence (dropWhile is_space behind') of
                None \<Rightarrow> None
              | Some (body, rest) \<Rightarrow> Some body))"

definition trim :: "string \<Rightarrow> string" where
  "trim s = rev (dropWhile is_space (rev (dropWhile is_space s)))"

text \<open>\<open>responseText.match(/\{[\s\S]*\}/)\<close>: from the first \<open>{\<close> to the last \<open>}\<close> behind it.\<close>

definition jsonMatch :: "string \<Rightarrow> string option" where
  "jsonMatch responseText =
     (case dropWhile (\<lambda>c. c \<noteq> CHR ''{'') responseText of
        [] \<Rightarrow> None
      | c # cs \<Rightarrow>
          (case dropWhile (\<lambda>c. c \<noteq> CHR ''}'') (rev cs) of
             [] \<Rightarrow> None
           | d # ds \<Rightarrow> Some (c # rev (d # ds))))"

text \<open>
  The two \<open>AgentError\<close>s of \<open>extractJSON\<close>. Its log lines and the copy of the text that it
  writes to a scratch file before the second error are not modelled.
\<close>

datatype extract_error = CouldNotExtract | CouldNotParse

definition extractJSON :: "string \<Rightarrow> extract_error + json" where
  "extractJSON responseText =
     (let jsonStr = (case codeBlockMatch responseText of
                       Some body \<Rightarrow> Some (trim body)
                     | None \<Rightarrow> jsonMatch responseText)
      in case jsonStr of
           None \<Rightarrow> Inl CouldNotExtract
         | Some js \<Rightarrow>
             if js = [] then Inl CouldNotExtract
             else (case JSON_parse js of
                     Some v \<Rightarrow> Inr v
                   | None \<Rightarrow>
                       (case JSON_parse (repairJSON js) of
                          Some v \<Rightarrow> Inr v
                        | None \<Rightarrow> Inl CouldNotParse)))"


subsection \<open>Evaluation of the parser on a text\<close>

lemmas parse_eval =
  JSON_parse_def run_def parse_init_def start_value_def after_value_def end_string_def
  json_ws_def is_digit_def digit_val_def hex_val_def escape_unit_def num_complete_def
  num_value_def num_init_def ustr_def

lemmas extract_eval =
  extractJSON_def codeBlockMatch_def jsonMatch_def fence_def trim_def is_space_def

subsection \<open>White space around a document\<close>

lemma run_append: "run st (a @ b) = run (run st a) b"
  by (simp add: run_def)

lemma run_Nil: "run st [] = st"
  by (simp add: run_def)

lemma run_Cons: "run st (c # cs) = run (step st c) cs"
  by (simp add: run_def)

lemma run_snoc: "run st (cs @ [c]) = step (run st cs) c"
  by (simp add: run_def)

lemma run_Err: "run Err s = Err"
  by (induction s) (simp_all add: run_Nil run_Cons)

lemma ws_not_number: "json_ws c \<Longrightarrow> num_step ns a c = None"
  by (cases ns) (auto simp: json_ws_def is_digit_def)

lemma finish_step_ws:
  assumes "json_ws c"
  shows "finish (step st c) = finish st"
proof (cases st)
  case Err
  then show ?thesis by simp
next
  case (St fs m)
  show ?thesis
  proof (cases m)
    case (MStr key cs)
    with St assms show ?thesis
      by (auto simp: json_ws_def end_string_def)
  next
    case (MEsc key cs)
    with St assms show ?thesis
      by (auto simp: json_ws_def escape_unit_def)
  next
    case (MHex key cs n x)
    with St assms show ?thesis
      by (auto simp: json_ws_def hex_val_def)
  next
    case (MNum ns a)
    with St assms show ?thesis
      by (cases fs) (auto simp: ws_not_number after_value_def)
  next
    case (MLit l)
    with St assms show ?thesis
      by (cases l) (auto simp: json_ws_def)
  qed (use St assms in \<open>auto simp: after_value_def\<close>)
qed

lemma finish_run_ws: "list_all json_ws w \<Longrightarrow> finish (run st w) = finish st"
  by (induction w arbitrary: st) (simp_all add: run_Nil run_Cons finish_step_ws)

lemma run_init_ws: "list_all json_ws w \<Longrightarrow> run parse_init (w @ s) = run parse_init s"
  by (induction w) (simp_all add: run_Cons parse_init_def)

lemma JSON_parse_ws:
  assumes "list_all json_ws w1" "list_all json_ws w2"
  shows "JSON_parse (w1 @ t @ w2) = JSON_parse t"
proof -
  have "run parse_init (w1 @ (t @ w2)) = run parse_init (t @ w2)"
    using assms(1) by (rule run_init_ws)
  then have "run parse_init (w1 @ t @ w2) = run (run parse_init t) w2"
    by (simp only: run_append)
  then show ?thesis
    using assms(2) by (simp add: JSON_parse_def finish_run_ws)
qed

lemma dropWhile_no_brace:
  assumes "list_all json_ws w"
  shows "dropWhile (\<lambda>c. c \<noteq> CHR ''{'') (w @ CHR ''{'' # t) = CHR ''{'' # t"
    and "dropWhile (\<lambda>c. c \<noteq> CHR ''}'') (w @ CHR ''}'' # t) = CHR ''}'' # t"
  using assms by (induction w) (auto simp: json_ws_def)

lemma jsonMatch_object:
  assumes "list_all json_ws w1" "list_all json_ws w2"
  shows "jsonMatch (w1 @ CHR ''{'' # body @ CHR ''}'' # w2) = Some (CHR ''{'' # body @ [CHR ''}''])"
proof -
  have r: "list_all json_ws (rev w2)" using assms(2) by (simp add: list_all_iff)
  have "dropWhile (\<lambda>c. c \<noteq> CHR ''}'') (rev (body @ CHR ''}'' # w2)) = CHR ''}'' # rev body"
    using dropWhile_no_brace(2) [OF r, of "rev body"] by simp
  then show ?thesis
    using dropWhile_no_brace(1) [OF assms(1)] by (simp add: jsonMatch_def)
qed


section \<open>Truncated documents\<close>

subsection \<open>The parser state at a cut\<close>


fun in_string_mode :: "mode \<Rightarrow> bool" where
  "in_string_mode (MStr key cs) = True"
| "in_string_mode (MEsc key cs) = True"
| "in_string_mode (MHex key cs n x) = True"
| "in_string_mode m = False"

fun escape_mode :: "mode \<Rightarrow> bool" where
  "escape_mode (MEsc key cs) = True"
| "escape_mode m = False"

text \<open>
  A text is cut at a closable place when it ends inside at least one open object or
  array, right behind an opening bracket or behind a complete value (an element, or the
  value of a member), white space aside. It then does not end inside a string literal.
\<close>

fun closable_mode :: "mode \<Rightarrow> bool" where
  "closable_mode MArrStart = True"
| "closable_mode MObjStart = True"
| "closable_mode (MAfter v) = True"
| "closable_mode (MNum ns a) = num_complete ns"
| "closable_mode m = False"

fun closable :: "pstate \<Rightarrow> bool" where
  "closable Err = False"
| "closable (St fs m) = (fs \<noteq> [] \<and> closable_mode m)"

definition cut_closable :: "string \<Rightarrow> bool" where
  "cut_closable p = closable (run parse_init p)"

text \<open>The characters that the bracket scan reacts to.\<close>

definition special :: "char \<Rightarrow> bool" where
  "special c \<longleftrightarrow> c = bslash \<or> c = dquote \<or> c = CHR ''{'' \<or> c = CHR ''['' \<or> c = CHR ''}'' \<or> c = CHR '']''"


text \<open>A container that waits for a value, and the states the parser can be in.\<close>

fun awaiting :: "frame \<Rightarrow> bool" where
  "awaiting (FObj ms) = False"
| "awaiting f = True"


fun in_array :: "frame list \<Rightarrow> bool" where
  "in_array (FArr es # r) = list_all awaiting r"
| "in_array fs = False"




subsection \<open>Keys\<close>









subsection \<open>Closing the open containers\<close>



lemma in_array_awaiting: "in_array fs \<Longrightarrow> list_all awaiting fs"
  by (cases fs rule: in_array.cases) auto










subsection \<open>The character scans on a valid prefix\<close>








lemma start_value_other:
  assumes "start_value fs c = St fs' m'" "\<not> special c"
  shows "fs' = fs \<and> \<not> in_string_mode m' \<and> \<not> escape_mode m'"
proof -
  from assms(2) have n: "c \<noteq> dquote" "c \<noteq> CHR ''{''" "c \<noteq> CHR ''[''" by (auto simp: special_def)
  from assms(1) show ?thesis
    unfolding start_value_def
    by (simp only: n if_False split: if_splits) auto
qed

lemma start_value_special:
  "start_value fs dquote = St fs (MStr False [])"
  "start_value fs (CHR ''{'') = St (FObj [] # fs) MObjStart"
  "start_value fs (CHR ''['') = St (FArr [] # fs) MArrStart"
  "start_value fs bslash = Err"
  "start_value fs (CHR ''}'') = Err"
  "start_value fs (CHR '']'') = Err"
  by (simp_all add: start_value_def is_digit_def)

lemma special_cases:
  "special c \<Longrightarrow> c = bslash \<or> c = dquote \<or> c = CHR ''{'' \<or> c = CHR ''['' \<or> c = CHR ''}'' \<or> c = CHR '']''"
  by (simp add: special_def)



lemma after_value_at:
  "json_ws c \<Longrightarrow> after_value fs v c = St fs (MAfter v)"
  "after_value fs v (CHR '','') =
     (case fs of
           FArr es # r \<Rightarrow> St (FArr (es @ [v]) # r) MValue
         | FMem ms k # r \<Rightarrow> St (FObj (obj_put ms k v) # r) MKey
         | _ \<Rightarrow> Err)"
  "after_value fs v (CHR '']'') =
     (case fs of FArr es # r \<Rightarrow> St r (MAfter (JArr (es @ [v]))) | _ \<Rightarrow> Err)"
  "after_value fs v (CHR ''}'') =
     (case fs of FMem ms k # r \<Rightarrow> St r (MAfter (JObj (obj_put ms k v))) | _ \<Rightarrow> Err)"
  "\<not> json_ws c \<Longrightarrow> c \<noteq> CHR '','' \<Longrightarrow> c \<noteq> CHR '']'' \<Longrightarrow> c \<noteq> CHR ''}'' \<Longrightarrow> after_value fs v c = Err"
  by (simp_all add: after_value_def json_ws_def)















subsection \<open>Keys of a closed document\<close>
















subsection \<open>Repair of a truncated document\<close>

lemmas repair_eval =
  repairJSON_def comma_passes_def replace_all.simps trailing_comma_def missing_comma_def
  value_end_def adjacent_def double_comma_def is_space_def is_digit_def
  fixStringEscaping_def escape_init_def escape_step_def
  closeOpenBrackets_def bracket_scan_of_def bracket_init_def bracket_step_def pop_all.simps



text \<open>
  A document printed over several lines, with a comma inside a string value, cut behind the
  second element of its array: the comma passes leave it as it is.
\<close>

definition pretty_cut :: string where
  \<open>pretty_cut = ''{'' @ [CHR 0x0A] @ ''  "a": "x, y",'' @ [CHR 0x0A] @ ''  "b": [1,'' @ [CHR 0x0A] @ ''    2''\<close>

lemma pretty_cut_repaired:
  "comma_passes pretty_cut = pretty_cut \<and> cut_closable pretty_cut \<and>
   repairJSON pretty_cut = pretty_cut @ '']}'' \<and>
   JSON_parse (pretty_cut @ '']}'') =
     Some (JObj [(ustr ''a'', JStr (ustr ''x, y'')), (ustr ''b'', JArr [JNum 1, JNum 2])])"
proof -
  have a: "comma_passes pretty_cut = pretty_cut"
    by (simp add: pretty_cut_def repair_eval)
  have b: "cut_closable pretty_cut"
    by (simp add: pretty_cut_def cut_closable_def parse_eval)
  have c: "repairJSON pretty_cut = pretty_cut @ '']}''"
    by (simp add: pretty_cut_def repair_eval)
  have d: "JSON_parse (pretty_cut @ '']}'') =
     Some (JObj [(ustr ''a'', JStr (ustr ''x, y'')), (ustr ''b'', JArr [JNum 1, JNum 2])])"
    by (simp add: pretty_cut_def parse_eval)
  from a b c d show ?thesis by blast
qed


section \<open>Valid documents\<close>

text \<open>
  Whether the document of a text is an object shows in the parser state from its first
  character on: in the outermost open container or, when none is open, in the value that
  is complete or under way. \<open>None\<close>: no value has begun.
\<close>

fun is_obj :: "json \<Rightarrow> bool" where
  "is_obj (JObj ms) = True"
| "is_obj v = False"

fun obj_frame :: "frame \<Rightarrow> bool" where
  "obj_frame (FArr es) = False"
| "obj_frame f = True"

fun top_obj :: "pstate \<Rightarrow> bool option" where
  "top_obj Err = None"
| "top_obj (St [] (MAfter v)) = Some (is_obj v)"
| "top_obj (St [] (MStr key cs)) = (if key then None else Some False)"
| "top_obj (St [] (MEsc key cs)) = (if key then None else Some False)"
| "top_obj (St [] (MHex key cs n x)) = (if key then None else Some False)"
| "top_obj (St [] (MNum ns a)) = Some False"
| "top_obj (St [] (MLit l)) = Some False"
| "top_obj (St [] m) = None"
| "top_obj (St (f # r) m) = Some (obj_frame (last (f # r)))"

lemma top_obj_frames: "fs \<noteq> [] \<Longrightarrow> top_obj (St fs m) = Some (obj_frame (last fs))"
  by (cases fs) simp_all

lemma top_obj_start_value:
  "start_value fs c = Err \<or>
   top_obj (start_value fs c) = (if fs = [] then Some (c = CHR ''{'') else Some (obj_frame (last fs)))"
proof (cases "special c")
  case True
  from special_cases [OF True] show ?thesis
    by (elim disjE) (auto simp: start_value_special top_obj_frames)
next
  case False
  show ?thesis
  proof (cases "start_value fs c")
    case Err
    then show ?thesis by simp
  next
    case (St fs' m')
    from start_value_other [OF St False] have e: "fs' = fs" "\<not> in_string_mode m'" by simp_all
    from False have n: "c \<noteq> dquote" "c \<noteq> CHR ''{''" "c \<noteq> CHR ''[''" by (auto simp: special_def)
    have "m' \<noteq> MValue \<and> m' \<noteq> MArrStart \<and> m' \<noteq> MObjStart \<and> m' \<noteq> MKey \<and> m' \<noteq> MColon \<and>
          (\<forall>v. m' \<noteq> MAfter v)"
      using St unfolding start_value_def
      by (simp only: n if_False split: if_splits) auto
    with e have "top_obj (St fs' m') = (if fs = [] then Some False else Some (obj_frame (last fs)))"
      by (cases fs; cases m') auto
    with St n show ?thesis by simp
  qed
qed

lemma top_obj_after_value:
  assumes "top_obj (St fs (MAfter v)) = Some b"
  shows "after_value fs v c = Err \<or> top_obj (after_value fs v c) = Some b"
proof -
  consider (ws) "json_ws c" | (comma) "c = CHR '',''" | (rb) "c = CHR '']''" | (rc) "c = CHR ''}''"
    | (other) "\<not> json_ws c" "c \<noteq> CHR '',''" "c \<noteq> CHR '']''" "c \<noteq> CHR ''}''" by blast
  then show ?thesis
  proof cases
    case ws
    with assms show ?thesis by (simp add: after_value_at(1))
  next
    case comma
    from assms show ?thesis
      unfolding comma after_value_at(2)
      by (auto split: list.splits frame.splits)
  next
    case rb
    from assms show ?thesis
      unfolding rb after_value_at(3)
      by (auto simp: top_obj_frames split: list.splits frame.splits if_splits)
  next
    case rc
    from assms show ?thesis
      unfolding rc after_value_at(4)
      by (auto simp: top_obj_frames split: list.splits frame.splits if_splits)
  next
    case other
    then show ?thesis by (simp add: after_value_at(5))
  qed
qed


lemma top_obj_step:
  assumes "top_obj st = Some b"
  shows "step st c = Err \<or> top_obj (step st c) = Some b"
proof (cases st)
  case Err
  then show ?thesis by simp
next
  case (St fs m)
  show ?thesis
  proof (cases "fs = []")
    case True
    note e = True
    show ?thesis
    proof (cases m)
      case (MAfter v)
      with St assms top_obj_after_value [of fs v b c] show ?thesis by simp
    next
      case (MStr key cs)
      with St e assms show ?thesis
        by (auto simp: end_string_def split: if_splits)
    next
      case (MEsc key cs)
      with St e assms show ?thesis
        by (auto split: if_splits option.splits)
    next
      case (MHex key cs n x)
      with St e assms show ?thesis
        by (auto split: if_splits option.splits)
    next
      case (MNum ns a)
      have "top_obj (St [] (MAfter (JNum (num_value a)))) = Some False" by simp
      from top_obj_after_value [OF this, of c] St e MNum assms show ?thesis
        by (auto split: option.splits)
    next
      case (MLit l)
      have "lit_step l c = Some (Inr x) \<Longrightarrow> \<not> is_obj x" for x
        by (cases l) (auto split: if_splits)
      with St e MLit assms show ?thesis
        by (auto split: option.splits sum.splits)
    qed (use St e assms in auto)
  next
    case False
    then have k: "top_obj (St fs m') = Some (obj_frame (last fs))" for m'
      by (rule top_obj_frames)
    from k [of m] St assms have b: "b = obj_frame (last fs)" by simp
    show ?thesis
    proof (cases m)
      case MValue
      with St False b top_obj_start_value [of fs c] k show ?thesis by auto
    next
      case MArrStart
      show ?thesis
      proof (cases "c = CHR '']''")
        case True
        from False b k show ?thesis
          unfolding St MArrStart True
          by (auto simp: json_ws_def top_obj_frames split: list.splits frame.splits)
      next
        case c: False
        with St False b MArrStart top_obj_start_value [of fs c] k show ?thesis by auto
      qed
    next
      case MObjStart
      show ?thesis
      proof (cases "c = CHR ''}''")
        case True
        from False b k show ?thesis
          unfolding St MObjStart True
          by (auto simp: json_ws_def top_obj_frames split: list.splits frame.splits)
      next
        case c: False
        with St False b MObjStart k show ?thesis by auto
      qed
    next
      case MKey
      with St b k show ?thesis by auto
    next
      case MColon
      with St b k show ?thesis by auto
    next
      case (MAfter v)
      with St assms top_obj_after_value [of fs v b c] show ?thesis by simp
    next
      case (MStr key cs)
      with St False b k show ?thesis
        by (auto simp: end_string_def top_obj_frames split: list.splits frame.splits)
    next
      case (MEsc key cs)
      with St b k show ?thesis by (auto split: option.splits)
    next
      case (MHex key cs n x)
      with St b k show ?thesis by (auto split: option.splits)
    next
      case (MNum ns a)
      from top_obj_after_value [of fs "JNum (num_value a)" b c] k b St MNum show ?thesis
        by (auto split: option.splits)
    next
      case (MLit l)
      with St b k show ?thesis by (auto split: option.splits sum.splits)
    qed
  qed
qed

lemma top_obj_run:
  "top_obj st = Some b \<Longrightarrow> run st s = Err \<or> top_obj (run st s) = Some b"
proof (induction s arbitrary: st)
  case Nil
  then show ?case by (simp add: run_Nil)
next
  case (Cons c s)
  from top_obj_step [OF Cons.prems, of c] show ?case
  proof
    assume "step st c = Err"
    then show ?thesis by (simp add: run_Cons run_Err)
  next
    assume "top_obj (step st c) = Some b"
    from Cons.IH [OF this] show ?thesis by (simp add: run_Cons)
  qed
qed

lemma after_value_empties:
  assumes "after_value fs v c = St [] m'" "\<not> json_ws c" "top_obj (St fs (MAfter v)) = Some True"
  shows "c = CHR ''}''"
proof -
  consider (comma) "c = CHR '',''" | (rb) "c = CHR '']''" | (rc) "c = CHR ''}''"
    | (other) "c \<noteq> CHR '',''" "c \<noteq> CHR '']''" "c \<noteq> CHR ''}''" by blast
  then show ?thesis
  proof cases
    case comma
    from assms(1) show ?thesis
      unfolding comma after_value_at(2) by (auto split: list.splits frame.splits)
  next
    case rb
    from assms(1,3) show ?thesis
      unfolding rb after_value_at(3) by (auto split: list.splits frame.splits)
  next
    case rc
    then show ?thesis .
  next
    case other
    with assms(1,2) show ?thesis by (simp add: after_value_at(5))
  qed
qed

lemma start_value_frames: "start_value fs c = St fs' m' \<Longrightarrow> fs' = fs \<or> (\<exists>g. fs' = g # fs)"
proof (cases "special c")
  case True
  assume "start_value fs c = St fs' m'"
  with special_cases [OF True] show ?thesis
    by (elim disjE) (auto simp: start_value_special)
next
  case False
  assume "start_value fs c = St fs' m'"
  from start_value_other [OF this False] show ?thesis by simp
qed

lemma step_empties:
  assumes t: "top_obj st = Some True" and s: "step st c = St [] (MAfter v)" and c: "\<not> json_ws c"
  shows "c = CHR ''}''"
proof (cases st)
  case Err
  with s show ?thesis by simp
next
  case (St fs m)
  show ?thesis
  proof (cases m)
    case MValue
    with St s c have "start_value fs c = St [] (MAfter v)" by simp
    from start_value_frames [OF this] St MValue t show ?thesis
      by (cases fs) auto
  next
    case MArrStart
    show ?thesis
    proof (cases "c = CHR '']''")
      case True
      from s t show ?thesis
        unfolding St MArrStart True
        by (auto simp: json_ws_def split: list.splits frame.splits)
    next
      case False
      with St s c MArrStart have "start_value fs c = St [] (MAfter v)" by simp
      from start_value_frames [OF this] St MArrStart t show ?thesis
        by (cases fs) auto
    qed
  next
    case MObjStart
    with St s c show ?thesis by (auto split: if_splits)
  next
    case MKey
    with St s c show ?thesis by (auto split: if_splits)
  next
    case MColon
    with St s c show ?thesis by (auto split: if_splits)
  next
    case (MAfter v0)
    with St s have "after_value fs v0 c = St [] (MAfter v)" by simp
    from after_value_empties [OF this c] t St MAfter show ?thesis by simp
  next
    case (MStr key cs)
    with St s t show ?thesis
      by (cases fs) (auto simp: end_string_def split: if_splits list.splits frame.splits)
  next
    case (MEsc key cs)
    with St s show ?thesis by (auto split: if_splits option.splits)
  next
    case (MHex key cs n x)
    with St s show ?thesis by (auto split: if_splits option.splits)
  next
    case (MNum ns a)
    show ?thesis
    proof (cases "num_step ns a c")
      case None
      with St MNum s have a: "after_value fs (JNum (num_value a)) c = St [] (MAfter v)"
        by (simp split: if_splits)
      from St MNum t have "fs \<noteq> []" by (cases fs) auto
      then have "top_obj (St fs (MAfter (JNum (num_value a)))) = top_obj (St fs (MNum ns a))"
        by (simp add: top_obj_frames)
      with after_value_empties [OF a c] t St MNum show ?thesis by simp
    next
      case (Some r)
      with St MNum s show ?thesis by (cases r) auto
    qed
  next
    case (MLit l)
    with St s t show ?thesis by (cases fs) (auto split: option.splits sum.splits)
  qed
qed

lemma finish_object:
  "finish st = Some (JObj ms) \<Longrightarrow> st = St [] (MAfter (JObj ms))"
  by (cases st rule: finish.cases) (auto split: if_splits)

lemma object_text_shape:
  assumes "JSON_parse s = Some (JObj ms)"
  shows "\<exists>w1 body w2. s = w1 @ CHR ''{'' # body @ CHR ''}'' # w2 \<and>
           list_all json_ws w1 \<and> list_all json_ws w2"
proof -
  let ?w1 = "takeWhile json_ws s"
  let ?t = "dropWhile json_ws s"
  have w1: "list_all json_ws ?w1" by (simp add: list_all_iff) (meson set_takeWhileD)
  have s1: "s = ?w1 @ ?t" by simp
  have fin: "finish (run parse_init s) = Some (JObj ms)"
    using assms by (simp add: JSON_parse_def)
  have r0: "run parse_init s = run parse_init ?t"
    using run_init_ws [OF w1, of ?t] by simp
  have "?t \<noteq> []"
  proof
    assume "?t = []"
    with r0 fin show False by (simp add: run_Nil parse_init_def)
  qed
  then obtain c0 t' where t: "?t = c0 # t'" by (cases ?t) auto
  then have c0: "\<not> json_ws c0" by (metis hd_dropWhile list.sel(1) \<open>?t \<noteq> []\<close>)
  let ?q = "start_value [] c0"
  have r1: "run parse_init s = run ?q t'"
    using r0 t c0 by (simp add: run_Cons parse_init_def)
  from fin have endst: "run ?q t' = St [] (MAfter (JObj ms))"
    unfolding r1 by (rule finish_object)
  then have qne: "?q \<noteq> Err" using run_Err [of t'] by auto
  with top_obj_start_value [of "[]" c0] have kq: "top_obj ?q = Some (c0 = CHR ''{'')" by simp
  from top_obj_run [OF kq, of t'] endst have c0b: "c0 = CHR ''{''" by simp
  with kq have kq': "top_obj ?q = Some True" by simp
  let ?w2 = "rev (takeWhile json_ws (rev t'))"
  let ?u = "rev (dropWhile json_ws (rev t'))"
  have w2: "list_all json_ws ?w2" by (simp add: list_all_iff) (meson set_takeWhileD)
  have t2: "t' = ?u @ ?w2"
    by (metis rev_append rev_rev_ident takeWhile_dropWhile_id)
  have "finish (run ?q (?u @ ?w2)) = finish (run ?q ?u)"
    using finish_run_ws [OF w2] by (simp add: run_append)
  with endst t2 have "finish (run ?q ?u) = Some (JObj ms)" by simp
  then have endu: "run ?q ?u = St [] (MAfter (JObj ms))" by (rule finish_object)
  have "?u \<noteq> []"
  proof
    assume "?u = []"
    with endu c0b show False by (simp add: run_Nil start_value_special)
  qed
  then obtain u' c where u: "?u = u' @ [c]" by (metis rev_exhaust)
  have cws: "\<not> json_ws c"
  proof -
    from u have "dropWhile json_ws (rev t') = c # rev u'"
      by (metis rev.simps(2) rev_rev_ident rev_append append_Nil)
    then show ?thesis by (metis hd_dropWhile list.sel(1) list.distinct(1))
  qed
  from endu u have st: "step (run ?q u') c = St [] (MAfter (JObj ms))"
    by (simp add: run_snoc)
  then have "run ?q u' \<noteq> Err" by auto
  with top_obj_run [OF kq', of u'] have "top_obj (run ?q u') = Some True" by simp
  from step_empties [OF this st cws] have cb: "c = CHR ''}''" .
  have "s = ?w1 @ CHR ''{'' # u' @ CHR ''}'' # ?w2"
    using s1 t c0b t2 u cb by (metis append.assoc append_Cons append_Nil)
  with w1 w2 show ?thesis by blast
qed

lemma extractJSON_object_text:
  assumes valid: "JSON_parse s = Some v"
    and no_fence: "codeBlockMatch s = None"
    and shape: "s = w1 @ CHR ''{'' # body @ CHR ''}'' # w2"
    and ws: "list_all json_ws w1" "list_all json_ws w2"
  shows "extractJSON s = Inr v"
proof -
  let ?t = "CHR ''{'' # body @ [CHR ''}'']"
  have m: "jsonMatch s = Some ?t"
    unfolding shape using ws by (rule jsonMatch_object)
  have "JSON_parse (w1 @ ?t @ w2) = JSON_parse ?t"
    using ws by (rule JSON_parse_ws)
  with valid shape have "JSON_parse ?t = Some v" by simp
  with m no_fence show ?thesis
    by (simp add: extractJSON_def)
qed

text \<open>
  C1, as the code has it. A valid JSON text whose value is an object, and in which the
  fence pattern finds no pair of code fences, is returned by \<open>extractJSON\<close> as
  \<open>JSON.parse\<close> reads it; no repair takes place.
\<close>

theorem extractJSON_valid_object:
  assumes valid: "JSON_parse s = Some (JObj ms)"
    and no_fence: "codeBlockMatch s = None"
  shows "extractJSON s = Inr (JObj ms)"
proof -
  from object_text_shape [OF valid] obtain w1 body w2
    where "s = w1 @ CHR ''{'' # body @ CHR ''}'' # w2" "list_all json_ws w1" "list_all json_ws w2"
    by blast
  with valid no_fence show ?thesis
    by (rule extractJSON_object_text)
qed

theorem extractJSON_valid_object_witness:
  \<open>JSON_parse '' {"a":{"b":2}} '' = Some (JObj [(ustr ''a'', JObj [(ustr ''b'', JNum 2)])]) \<and>
   codeBlockMatch '' {"a":{"b":2}} '' = None \<and>
   extractJSON '' {"a":{"b":2}} '' = Inr (JObj [(ustr ''a'', JObj [(ustr ''b'', JNum 2)])])\<close>
proof -
  have v: \<open>JSON_parse '' {"a":{"b":2}} '' = Some (JObj [(ustr ''a'', JObj [(ustr ''b'', JNum 2)])])\<close>
    by (simp add: parse_eval)
  have f: \<open>codeBlockMatch '' {"a":{"b":2}} '' = None\<close>
    by (simp add: codeBlockMatch_def fence_def)
  from extractJSON_valid_object [OF v f] v f show ?thesis
    by blast
qed

text \<open>
  C1 as stated fails on valid JSON texts that are no objects: for the array \<open>[1, 2]\<close>
  nothing is extracted and \<open>extractJSON\<close> raises; from the array \<open>[{"a":1}]\<close> it returns
  the inner object, not the array.
\<close>

theorem extractJSON_valid_array_differs:
  \<open>JSON_parse ''[1, 2]'' = Some (JArr [JNum 1, JNum 2]) \<and>
   extractJSON ''[1, 2]'' = Inl CouldNotExtract \<and>
   JSON_parse ''[{"a":1}]'' = Some (JArr [JObj [(ustr ''a'', JNum 1)]]) \<and>
   extractJSON ''[{"a":1}]'' = Inr (JObj [(ustr ''a'', JNum 1)])\<close>
proof -
  have a: \<open>JSON_parse ''[1, 2]'' = Some (JArr [JNum 1, JNum 2])\<close>
    by (simp add: parse_eval)
  have b: \<open>extractJSON ''[1, 2]'' = Inl CouldNotExtract\<close>
    by (simp add: extract_eval)
  have c: \<open>JSON_parse ''[{"a":1}]'' = Some (JArr [JObj [(ustr ''a'', JNum 1)]])\<close>
    by (simp add: parse_eval)
  have d: \<open>JSON_parse ''{"a":1}'' = Some (JObj [(ustr ''a'', JNum 1)])\<close>
    by (simp add: parse_eval)
  have e: \<open>extractJSON ''[{"a":1}]'' = Inr (JObj [(ustr ''a'', JNum 1)])\<close>
    by (simp add: extract_eval d)
  from a b c e show ?thesis by blast
qed

end
